theory Spec2Isabelle
  imports Main
begin

section \<open>NanoNet: sequence padding, one-hot encoding and the PDB writer\<close>

text \<open>
  A shallow embedding of \<^verbatim>\<open>pad_seq\<close>, \<^verbatim>\<open>generate_input\<close> and
  \<^verbatim>\<open>matrix_to_pdb\<close> of \<^verbatim>\<open>NanoNet.py\<close>. Python strings are \<open>string\<close>, Python
  integers are \<open>int\<close> where they can go negative (the pad counts) and \<open>nat\<close> where they
  are indices or counters that only grow. Exceptions are values of \<open>error\<close>.
\<close>

subsection \<open>Constants\<close>

definition NB_MAX_LENGTH :: nat where
  "NB_MAX_LENGTH = 140"

definition FEATURE_NUM :: nat where
  "FEATURE_NUM = 22"

text \<open>The dictionary literal \<^verbatim>\<open>AA_DICT\<close>, in the order of the source.\<close>

definition AA_DICT_items :: "(char \<times> nat) list" where
  "AA_DICT_items =
     [(CHR ''A'', 0), (CHR ''C'', 1), (CHR ''D'', 2), (CHR ''E'', 3), (CHR ''F'', 4),
      (CHR ''G'', 5), (CHR ''H'', 6), (CHR ''I'', 7), (CHR ''K'', 8), (CHR ''L'', 9),
      (CHR ''M'', 10), (CHR ''N'', 11), (CHR ''P'', 12), (CHR ''Q'', 13), (CHR ''R'', 14),
      (CHR ''S'', 15), (CHR ''T'', 16), (CHR ''W'', 17), (CHR ''Y'', 18), (CHR ''V'', 19),
      (CHR ''-'', 21), (CHR ''X'', 20)]"

definition AA_DICT :: "char \<rightharpoonup> nat" where
  "AA_DICT = map_of AA_DICT_items"

text \<open>The exceptions the modelled functions can raise.\<close>

datatype error = IndexError | KeyError

subsection \<open>\<^verbatim>\<open>pad_seq\<close>\<close>

text \<open>
  \<^verbatim>\<open>n * "-"\<close> for a Python integer \<open>n\<close>: the string repeated \<open>n\<close> times, and the
  empty string when \<open>n\<close> is zero or negative.
\<close>

definition str_mul :: "int \<Rightarrow> string \<Rightarrow> string" where
  "str_mul n s = concat (replicate (nat n) s)"

text \<open>
  \<^verbatim>\<open>up_pad = (NB_MAX_LENGTH - seq_len) // 2\<close> and
  \<^verbatim>\<open>down_pad = NB_MAX_LENGTH - up_pad - seq_len\<close>. Python's \<^verbatim>\<open>//\<close> rounds towards
  minus infinity, as \<open>div\<close> on \<open>int\<close> does.
\<close>

definition up_pad :: "nat \<Rightarrow> int" where
  "up_pad seq_len = (int NB_MAX_LENGTH - int seq_len) div 2"

definition down_pad :: "nat \<Rightarrow> int" where
  "down_pad seq_len = int NB_MAX_LENGTH - up_pad seq_len - int seq_len"

text \<open>
  \<^verbatim>\<open>pad_seq\<close> has no \<^verbatim>\<open>raise\<close>, and \<^verbatim>\<open>len\<close>, the integer arithmetic, the
  repetition and the concatenation are defined on every string: it is a total function.
\<close>

definition pad_seq :: "string \<Rightarrow> string" where
  "pad_seq seq =
     (let seq_len = length seq
      in str_mul (up_pad seq_len) ''-'' @ seq @ str_mul (down_pad seq_len) ''-'')"

subsection \<open>\<^verbatim>\<open>generate_input\<close>\<close>

text \<open>
  \<^verbatim>\<open>np.zeros((rows, cols))\<close>. The only entries the encoder ever stores are \<open>0.0\<close> and
  \<open>1.0\<close>; they are the naturals \<open>0\<close> and \<open>1\<close> here.
\<close>

definition zeros :: "nat \<Rightarrow> nat \<Rightarrow> nat list list" where
  "zeros rows cols = replicate rows (replicate cols 0)"

text \<open>
  The loop \<^verbatim>\<open>for i in range(NB_MAX_LENGTH): seq_matrix[i][AA_DICT[seq[i]]] = 1\<close> over
  the list of indices still to visit. The target row \<^verbatim>\<open>seq_matrix[i]\<close> is evaluated
  first, then \<^verbatim>\<open>seq[i]\<close>, then the dictionary lookup, then the store; each of them
  raises when it is out of range or the key is missing, and the exception ends the call.
\<close>

fun one_hot_loop :: "string \<Rightarrow> nat list \<Rightarrow> nat list list \<Rightarrow> error + nat list list" where
  "one_hot_loop seq [] seq_matrix = Inr seq_matrix"
| "one_hot_loop seq (i # rest) seq_matrix =
     (if length seq_matrix \<le> i then Inl IndexError
      else if length seq \<le> i then Inl IndexError
      else case AA_DICT (seq ! i) of
        None \<Rightarrow> Inl KeyError
      | Some c \<Rightarrow>
          if length (seq_matrix ! i) \<le> c then Inl IndexError
          else one_hot_loop seq rest (seq_matrix[i := (seq_matrix ! i)[c := 1]]))"

text \<open>
  \<^verbatim>\<open>generate_input\<close> returns the lines it printed (the warning, when \<^verbatim>\<open>"X" in seq\<close>)
  together with the matrix or the exception.
\<close>

definition generate_input :: "string \<Rightarrow> string list \<times> (error + nat list list)" where
  "generate_input seq =
     (let printed = (if CHR ''X'' \<in> set seq
                     then [''Warning, sequence: '' @ seq @ '', has unknown aa'']
                     else []);
          seq' = pad_seq seq
      in (printed, one_hot_loop seq' [0..<NB_MAX_LENGTH] (zeros NB_MAX_LENGTH FEATURE_NUM)))"

subsection \<open>\<^verbatim>\<open>matrix_to_pdb\<close>\<close>

definition backbone :: "string list" where
  "backbone = [''N'', ''CA'', ''C'', ''O'', ''CB'']"

text \<open>
  One call of \<^verbatim>\<open>pdb_file.write(ATOM_LINE.format(...))\<close> is recorded with the values the
  template receives: the atom serial \<open>k\<close>, the atom name \<^verbatim>\<open>backbone[j]\<close>, the three-letter
  code, the residue serial \<open>i\<close> and the three coordinates (the spacing arguments and the
  element symbol are functions of these). Coordinates are values of any type \<open>'c\<close>: the
  writer only copies them. The stream is the list of writes of the call, oldest first.
\<close>

record 'c atom_line =
  serial :: nat
  atom_name :: string
  res_name :: string
  res_seq :: nat
  coord_x :: 'c
  coord_y :: 'c
  coord_z :: 'c

datatype 'c pdb_write = ATOM_LINE "'c atom_line" | END_LINE

text \<open>
  The state of a call: the residue counter \<open>i\<close>, the atom counter \<open>k\<close> and the stream.
  An exception leaves the stream as it is at that moment, so every step returns the
  state together with the exception, if any.
\<close>

record 'c writer =
  res_i :: nat
  atom_k :: nat
  pdb_file :: "'c pdb_write list"

text \<open>Indexing a list or an array: \<^verbatim>\<open>IndexError\<close> out of range.\<close>

definition getitem :: "'a list \<Rightarrow> nat \<Rightarrow> error + 'a" where
  "getitem xs n = (if n < length xs then Inr (xs ! n) else Inl IndexError)"

text \<open>
  The three reads \<^verbatim>\<open>coord_matrix[aa][3*j]\<close>, \<^verbatim>\<open>coord_matrix[aa][3*j+1]\<close> and
  \<^verbatim>\<open>coord_matrix[aa][3*j+2]\<close>, in this order.
\<close>

definition read_coords :: "'c list list \<Rightarrow> nat \<Rightarrow> nat \<Rightarrow> error + ('c \<times> 'c \<times> 'c)" where
  "read_coords coord_matrix aa j =
     (case getitem coord_matrix aa of
        Inl e \<Rightarrow> Inl e
      | Inr row \<Rightarrow>
          (case getitem row (3 * j) of
             Inl e \<Rightarrow> Inl e
           | Inr cx \<Rightarrow>
               (case getitem row (3 * j + 1) of
                  Inl e \<Rightarrow> Inl e
                | Inr cy \<Rightarrow>
                    (case getitem row (3 * j + 2) of
                       Inl e \<Rightarrow> Inl e
                     | Inr cz \<Rightarrow> Inr (cx, cy, cz)))))"

text \<open>
  \<^verbatim>\<open>"UNK" if seq[aa] == "X" else Polypeptide.one_to_three(seq[aa])\<close>. The function
  \<^verbatim>\<open>one_to_three\<close> belongs to Biopython; it is a parameter of the model.
\<close>

definition one_letter_code :: "(char \<Rightarrow> error + string) \<Rightarrow> char \<Rightarrow> error + string" where
  "one_letter_code one_to_three c = (if c = CHR ''X'' then Inr ''UNK'' else one_to_three c)"

text \<open>
  The body of \<^verbatim>\<open>for j in range(len(backbone))\<close>: the coordinates are read and the code
  is looked up before the Glycine test, also for the atom that is then skipped.
\<close>

definition atom_step ::
  "(char \<Rightarrow> error + string) \<Rightarrow> string \<Rightarrow> 'c list list \<Rightarrow> nat \<Rightarrow> nat \<Rightarrow> 'c writer
   \<Rightarrow> error option \<times> 'c writer" where
  "atom_step one_to_three seq coord_matrix aa j w =
     (case read_coords coord_matrix aa j of
        Inl e \<Rightarrow> (Some e, w)
      | Inr (cx, cy, cz) \<Rightarrow>
          (case one_letter_code one_to_three (seq ! aa) of
             Inl e \<Rightarrow> (Some e, w)
           | Inr code \<Rightarrow>
               if seq ! aa = CHR ''G'' \<and> backbone ! j = ''CB'' then (None, w)
               else (None, w\<lparr>pdb_file := pdb_file w @
                                 [ATOM_LINE \<lparr>serial = atom_k w, atom_name = backbone ! j,
                                    res_name = code, res_seq = res_i w,
                                    coord_x = cx, coord_y = cy, coord_z = cz\<rparr>],
                               atom_k := atom_k w + 1\<rparr>)))"

fun backbone_loop ::
  "(char \<Rightarrow> error + string) \<Rightarrow> string \<Rightarrow> 'c list list \<Rightarrow> nat \<Rightarrow> nat list \<Rightarrow> 'c writer
   \<Rightarrow> error option \<times> 'c writer" where
  "backbone_loop one_to_three seq coord_matrix aa [] w = (None, w)"
| "backbone_loop one_to_three seq coord_matrix aa (j # rest) w =
     (case atom_step one_to_three seq coord_matrix aa j w of
        (Some e, w') \<Rightarrow> (Some e, w')
      | (None, w') \<Rightarrow> backbone_loop one_to_three seq coord_matrix aa rest w')"

text \<open>The body of \<^verbatim>\<open>for aa in range(len(seq))\<close>.\<close>

definition residue_step ::
  "(char \<Rightarrow> error + string) \<Rightarrow> string \<Rightarrow> 'c list list \<Rightarrow> nat \<Rightarrow> 'c writer
   \<Rightarrow> error option \<times> 'c writer" where
  "residue_step one_to_three seq coord_matrix aa w =
     (if seq ! aa \<noteq> CHR ''-'' then
        (case backbone_loop one_to_three seq coord_matrix aa [0..<length backbone] w of
           (Some e, w') \<Rightarrow> (Some e, w')
         | (None, w') \<Rightarrow> (None, w'\<lparr>res_i := res_i w' + 1\<rparr>))
      else (None, w))"

fun seq_loop ::
  "(char \<Rightarrow> error + string) \<Rightarrow> string \<Rightarrow> 'c list list \<Rightarrow> nat list \<Rightarrow> 'c writer
   \<Rightarrow> error option \<times> 'c writer" where
  "seq_loop one_to_three seq coord_matrix [] w = (None, w)"
| "seq_loop one_to_three seq coord_matrix (aa # rest) w =
     (case residue_step one_to_three seq coord_matrix aa w of
        (Some e, w') \<Rightarrow> (Some e, w')
      | (None, w') \<Rightarrow> seq_loop one_to_three seq coord_matrix rest w')"

text \<open>
  \<^verbatim>\<open>matrix_to_pdb\<close>: pad, run the loop from \<open>i = 1\<close>, \<open>k = 1\<close>, then write
  \<^verbatim>\<open>END_LINE\<close>. When the loop raises, \<^verbatim>\<open>END_LINE\<close> is not written.
\<close>

definition matrix_to_pdb ::
  "(char \<Rightarrow> error + string) \<Rightarrow> string \<Rightarrow> 'c list list \<Rightarrow> error option \<times> 'c writer" where
  "matrix_to_pdb one_to_three seq coord_matrix =
     (let seq' = pad_seq seq
      in case seq_loop one_to_three seq' coord_matrix [0..<length seq']
                \<lparr>res_i = 1, atom_k = 1, pdb_file = []\<rparr> of
           (Some e, w) \<Rightarrow> (Some e, w)
         | (None, w) \<Rightarrow> (None, w\<lparr>pdb_file := pdb_file w @ [END_LINE]\<rparr>))"

text \<open>
  Modelled from the spec: \<^verbatim>\<open>Bio.PDB.Polypeptide.one_to_three\<close> is not part of the
  repository. This instance maps each of the 20 standard residues to its canonical
  three-letter code and fails on every other symbol; the theorems below hold for any
  \<open>one_to_three\<close>, and this one is used where a concrete run is evaluated.
\<close>

definition std_three_items :: "(char \<times> string) list" where
  "std_three_items =
     [(CHR ''A'', ''ALA''), (CHR ''C'', ''CYS''), (CHR ''D'', ''ASP''), (CHR ''E'', ''GLU''),
      (CHR ''F'', ''PHE''), (CHR ''G'', ''GLY''), (CHR ''H'', ''HIS''), (CHR ''I'', ''ILE''),
      (CHR ''K'', ''LYS''), (CHR ''L'', ''LEU''), (CHR ''M'', ''MET''), (CHR ''N'', ''ASN''),
      (CHR ''P'', ''PRO''), (CHR ''Q'', ''GLN''), (CHR ''R'', ''ARG''), (CHR ''S'', ''SER''),
      (CHR ''T'', ''THR''), (CHR ''V'', ''VAL''), (CHR ''W'', ''TRP''), (CHR ''Y'', ''TYR'')]"

definition std_one_to_three :: "char \<Rightarrow> error + string" where
  "std_one_to_three c =
     (case map_of std_three_items c of None \<Rightarrow> Inl KeyError | Some t \<Rightarrow> Inr t)"

subsection \<open>Reading the stream\<close>

text \<open>The atom records of a stream, in the order they were written.\<close>

fun atom_lines :: "'c pdb_write list \<Rightarrow> 'c atom_line list" where
  "atom_lines [] = []"
| "atom_lines (ATOM_LINE a # ws) = a # atom_lines ws"
| "atom_lines (END_LINE # ws) = atom_lines ws"

text \<open>The residues of a sequence: its symbols other than the gap.\<close>

definition residues :: "string \<Rightarrow> string" where
  "residues seq = filter (\<lambda>c. c \<noteq> CHR ''-'') seq"

subsection \<open>The records of a successful run, in closed form\<close>

text \<open>
  These functions are not part of the program. They describe what the loops write when
  nothing raises, and the lemmas below prove that the loops write exactly that:
  \<open>res_lines\<close> for one residue, \<open>seq_lines\<close> for a list of positions, and
  \<open>res_triples\<close> for the residue serial, code and atom name of the records of one residue.
\<close>

definition res_lines :: "string \<Rightarrow> 'c list \<Rightarrow> char \<Rightarrow> nat \<Rightarrow> nat \<Rightarrow> 'c atom_line list" where
  "res_lines code row c i k =
     map (\<lambda>(n, j). \<lparr>serial = k + n, atom_name = backbone ! j, res_name = code, res_seq = i,
                      coord_x = row ! (3 * j), coord_y = row ! (3 * j + 1),
                      coord_z = row ! (3 * j + 2)\<rparr>)
         (enumerate 0 (filter (\<lambda>j. \<not> (c = CHR ''G'' \<and> backbone ! j = ''CB''))
                              [0..<length backbone]))"

fun seq_lines ::
  "(char \<Rightarrow> error + string) \<Rightarrow> string \<Rightarrow> 'c list list \<Rightarrow> nat list \<Rightarrow> nat \<Rightarrow> nat
   \<Rightarrow> 'c atom_line list" where
  "seq_lines one_to_three seq coord_matrix [] i k = []"
| "seq_lines one_to_three seq coord_matrix (aa # rest) i k =
     (if seq ! aa = CHR ''-'' then seq_lines one_to_three seq coord_matrix rest i k
      else res_lines (projr (one_letter_code one_to_three (seq ! aa))) (coord_matrix ! aa)
             (seq ! aa) i k @
           seq_lines one_to_three seq coord_matrix rest (i + 1)
             (k + (if seq ! aa = CHR ''G'' then 4 else 5)))"

definition res_triples :: "(char \<Rightarrow> error + string) \<Rightarrow> nat \<times> char \<Rightarrow> (nat \<times> string \<times> string) list" where
  "res_triples one_to_three nc =
     map (\<lambda>a. (fst nc, projr (one_letter_code one_to_three (snd nc)), a))
         (if snd nc = CHR ''G'' then [''N'', ''CA'', ''C'', ''O'']
          else [''N'', ''CA'', ''C'', ''O'', ''CB''])"

subsection \<open>Facts about padding\<close>

lemma str_mul_gap: "str_mul n ''-'' = replicate (nat n) (CHR ''-'')"
  by (induction "nat n" arbitrary: n) (simp_all add: str_mul_def replicate_app_Cons_same)

lemma up_pad_nat: "n \<le> 140 \<Longrightarrow> up_pad n = int ((140 - n) div 2)"
  by (simp add: up_pad_def NB_MAX_LENGTH_def of_nat_diff zdiv_int)

lemma down_pad_nat: "n \<le> 140 \<Longrightarrow> down_pad n = int (140 - (140 - n) div 2 - n)"
  by (simp add: down_pad_def up_pad_nat NB_MAX_LENGTH_def of_nat_diff)

lemma pad_seq_short:
  "length s \<le> 140 \<Longrightarrow>
   pad_seq s = replicate ((140 - length s) div 2) (CHR ''-'') @ s @
               replicate (140 - (140 - length s) div 2 - length s) (CHR ''-'')"
  by (simp add: pad_seq_def Let_def str_mul_gap up_pad_nat down_pad_nat)

lemma length_pad_seq_short: "length s \<le> 140 \<Longrightarrow> length (pad_seq s) = 140"
  by (simp add: pad_seq_short)

lemma up_pad_long: "140 < n \<Longrightarrow> up_pad n < 0"
  by (simp add: up_pad_def NB_MAX_LENGTH_def)

lemma down_pad_long: "140 < n \<Longrightarrow> down_pad n \<le> 0"
  unfolding down_pad_def up_pad_def NB_MAX_LENGTH_def by linarith

lemma pad_seq_long: "140 < length s \<Longrightarrow> pad_seq s = s"
  by (simp add: pad_seq_def Let_def str_mul_gap up_pad_long down_pad_long less_imp_le)

text \<open>
  Claim C1. For a sequence of length at most 140, \<^verbatim>\<open>pad_seq\<close> returns \<open>up_pad\<close> gap
  symbols, the sequence, and \<open>down_pad\<close> gap symbols, where \<open>up_pad = (140 - length) div 2\<close>
  and \<open>down_pad = 140 - up_pad - length\<close>. When the total padding is odd the extra gap is
  at the back: length 139 gives 0 and 1, length 3 gives 68 and 69.
\<close>

theorem pad_seq_split:
  assumes "length s \<le> 140"
  shows "pad_seq s = replicate (nat (up_pad (length s))) (CHR ''-'') @ s @
                     replicate (nat (down_pad (length s))) (CHR ''-'')
       \<and> nat (up_pad (length s)) = (140 - length s) div 2
       \<and> nat (down_pad (length s)) = 140 - (140 - length s) div 2 - length s
       \<and> down_pad (length s) = up_pad (length s) + (if odd (140 - length s) then 1 else 0)
       \<and> (length s = 139 \<longrightarrow> up_pad (length s) = 0 \<and> down_pad (length s) = 1)
       \<and> (length s = 3 \<longrightarrow> up_pad (length s) = 68 \<and> down_pad (length s) = 69)"
proof -
  let ?n = "length s"
  have up: "up_pad ?n = int ((140 - ?n) div 2)"
    using assms by (rule up_pad_nat)
  have down: "down_pad ?n = int (140 - (140 - ?n) div 2 - ?n)"
    using assms by (rule down_pad_nat)
  have split: "pad_seq s = replicate (nat (up_pad ?n)) (CHR ''-'') @ s @
                           replicate (nat (down_pad ?n)) (CHR ''-'')"
    by (simp add: pad_seq_def Let_def str_mul_gap)
  have extra: "down_pad ?n = up_pad ?n + (if odd (140 - ?n) then 1 else 0)"
    unfolding up down using assms by (simp, presburger)
  have l139: "?n = 139 \<longrightarrow> up_pad ?n = 0 \<and> down_pad ?n = 1"
    by (simp add: up_pad_def down_pad_def NB_MAX_LENGTH_def)
  have l3: "?n = 3 \<longrightarrow> up_pad ?n = 68 \<and> down_pad ?n = 69"
    by (simp add: up_pad_def down_pad_def NB_MAX_LENGTH_def)
  have upn: "nat (up_pad ?n) = (140 - ?n) div 2"
    by (simp add: up)
  have downn: "nat (down_pad ?n) = 140 - (140 - ?n) div 2 - ?n"
    by (simp add: down)
  from split upn downn extra l139 l3 show ?thesis
    by blast
qed

theorem pad_seq_split_witness:
  "length ''CAR'' \<le> 140
   \<and> pad_seq ''CAR'' = replicate 68 (CHR ''-'') @ ''CAR'' @ replicate 69 (CHR ''-'')
   \<and> length (replicate 139 (CHR ''A'')) = 139
   \<and> pad_seq (replicate 139 (CHR ''A'')) = replicate 139 (CHR ''A'') @ ''-''"
  using pad_seq_split [of "''CAR''"] pad_seq_split [of "replicate 139 (CHR ''A'')"]
  by simp

text \<open>
  Claim C8. For a sequence of length at most 140 the padded string has length exactly
  140, and the slice \<^verbatim>\<open>pad_seq(seq)[front : front + len(seq)]\<close> with
  \<open>front = (140 - len(seq)) div 2\<close> is the sequence again.
\<close>

theorem pad_seq_roundtrip:
  assumes "length s \<le> 140"
  shows "length (pad_seq s) = 140
       \<and> take (length s) (drop ((140 - length s) div 2) (pad_seq s)) = s"
  using assms by (simp add: pad_seq_short)

theorem pad_seq_roundtrip_witness:
  "length ''CAR'' \<le> 140 \<and> length (pad_seq ''CAR'') = 140
   \<and> take 3 (drop 68 (pad_seq ''CAR'')) = ''CAR''"
  using pad_seq_roundtrip [of "''CAR''"] by (simp add: numeral_3_eq_3)

text \<open>
  Claim C9. For a sequence longer than 140 both pad counts are at most zero, both
  repetitions are empty, and \<^verbatim>\<open>pad_seq\<close> returns its argument: nothing is added,
  nothing is removed, and the result keeps the original length, which is not 140.
\<close>

theorem pad_seq_long_unchanged:
  assumes "140 < length s"
  shows "up_pad (length s) \<le> 0 \<and> down_pad (length s) \<le> 0
       \<and> str_mul (up_pad (length s)) ''-'' = []
       \<and> str_mul (down_pad (length s)) ''-'' = []
       \<and> pad_seq s = s
       \<and> length (pad_seq s) = length s \<and> length (pad_seq s) \<noteq> 140"
  using assms up_pad_long [of "length s"] down_pad_long [of "length s"]
  by (simp add: pad_seq_long str_mul_gap)

theorem pad_seq_long_unchanged_witness:
  "140 < length (replicate 143 (CHR ''A''))
   \<and> up_pad 143 = - 2 \<and> down_pad 143 = - 1
   \<and> pad_seq (replicate 143 (CHR ''A'')) = replicate 143 (CHR ''A'')"
  using pad_seq_long_unchanged [of "replicate 143 (CHR ''A'')"]
  by (simp add: up_pad_def down_pad_def NB_MAX_LENGTH_def)

text \<open>
  Claim C6, as the code has it. \<^verbatim>\<open>pad_seq\<close> has no length check and raises nothing: a
  sequence of 141 symbols comes back as it went in.
\<close>

theorem pad_seq_too_long_counterexample:
  "140 < length (replicate 141 (CHR ''A''))
   \<and> pad_seq (replicate 141 (CHR ''A'')) = replicate 141 (CHR ''A'')"
  by (simp add: pad_seq_def Let_def str_mul_gap up_pad_def down_pad_def NB_MAX_LENGTH_def)

text \<open>
  Claim C6, amended. For every sequence longer than 140, \<^verbatim>\<open>pad_seq\<close> returns normally
  and its result is the sequence itself, so no symbol of the sequence is dropped.
\<close>

theorem pad_seq_too_long_keeps_all:
  assumes "140 < length s"
  shows "pad_seq s = s \<and> \<not> length (pad_seq s) \<le> 140"
  using assms by (simp add: pad_seq_long)

theorem pad_seq_too_long_keeps_all_witness:
  "140 < length (replicate 141 (CHR ''A''))
   \<and> pad_seq (replicate 141 (CHR ''A'')) = replicate 141 (CHR ''A'')
   \<and> \<not> length (pad_seq (replicate 141 (CHR ''A''))) \<le> 140"
  using pad_seq_too_long_keeps_all [of "replicate 141 (CHR ''A'')"] by simp

subsection \<open>Facts about the encoder\<close>

lemma AA_DICT_range: "AA_DICT c = Some n \<Longrightarrow> n < 22"
  by (simp add: AA_DICT_def AA_DICT_items_def split: if_splits)

lemma AA_DICT_gap: "AA_DICT (CHR ''-'') = Some 21"
  by (simp add: AA_DICT_def AA_DICT_items_def)

lemma AA_DICT_X: "AA_DICT (CHR ''X'') = Some 20"
  by (simp add: AA_DICT_def AA_DICT_items_def)

lemma set_pad_seq: "set (pad_seq s) \<subseteq> insert (CHR ''-'') (set s)"
  by (auto simp: pad_seq_def Let_def str_mul_gap)

lemma pad_seq_in_dict:
  assumes "set s \<subseteq> dom AA_DICT" and "i < length (pad_seq s)"
  shows "\<exists>c. AA_DICT (pad_seq s ! i) = Some c"
proof -
  have "pad_seq s ! i \<in> set (pad_seq s)"
    using assms(2) by simp
  then have "pad_seq s ! i \<in> insert (CHR ''-'') (set s)"
    using set_pad_seq by blast
  then show ?thesis
    using assms(1) AA_DICT_gap by auto
qed

lemma one_hot_loop_ok:
  assumes "distinct js"
    and "\<forall>i\<in>set js. i < length seq \<and> i < length m \<and> (\<exists>c. AA_DICT (seq ! i) = Some c)"
    and "\<forall>i<length m. length (m ! i) = 22"
  shows "\<exists>m'. one_hot_loop seq js m = Inr m' \<and> length m' = length m \<and>
           (\<forall>i<length m. m' ! i =
              (if i \<in> set js then (m ! i)[the (AA_DICT (seq ! i)) := 1] else m ! i))"
  using assms
proof (induction js arbitrary: m)
  case Nil
  then show ?case by simp
next
  case (Cons j js)
  from Cons.prems obtain c where c: "AA_DICT (seq ! j) = Some c"
    and j: "j < length seq" "j < length m" by auto
  have c22: "c < 22" using c by (rule AA_DICT_range)
  let ?m1 = "m[j := (m ! j)[c := 1]]"
  have step: "one_hot_loop seq (j # js) m = one_hot_loop seq js ?m1"
    using c j c22 Cons.prems(3) by simp
  have rows: "\<forall>i<length ?m1. length (?m1 ! i) = 22"
    using Cons.prems(3) j by (auto simp: nth_list_update)
  have idx: "\<forall>i\<in>set js. i < length seq \<and> i < length ?m1 \<and> (\<exists>c. AA_DICT (seq ! i) = Some c)"
    using Cons.prems(2) by simp
  have dist: "distinct js" and notin: "j \<notin> set js"
    using Cons.prems(1) by simp_all
  from Cons.IH [OF dist idx rows] obtain m' where
    m': "one_hot_loop seq js ?m1 = Inr m'" "length m' = length ?m1"
    "\<forall>i<length ?m1. m' ! i =
        (if i \<in> set js then (?m1 ! i)[the (AA_DICT (seq ! i)) := 1] else ?m1 ! i)"
    by blast
  have "m' ! i =
          (if i \<in> set (j # js) then (m ! i)[the (AA_DICT (seq ! i)) := 1] else m ! i)"
    if i: "i < length m" for i
  proof (cases "i = j")
    case True
    then show ?thesis
      using m'(3) notin c i by simp
  next
    case False
    then show ?thesis
      using m'(3) i by simp
  qed
  then show ?case
    using step m'(1,2) by simp
qed

lemma generate_input_rows:
  assumes "length s \<le> 140" and "set s \<subseteq> dom AA_DICT"
  shows "\<exists>m. snd (generate_input s) = Inr m \<and> length m = 140 \<and>
           (\<forall>i<140. m ! i = (replicate 22 0)[the (AA_DICT (pad_seq s ! i)) := 1])"
proof -
  have len: "length (pad_seq s) = 140"
    using assms(1) by (rule length_pad_seq_short)
  have idx: "\<forall>i\<in>set [0..<140]. i < length (pad_seq s) \<and> i < length (zeros 140 22)
               \<and> (\<exists>c. AA_DICT (pad_seq s ! i) = Some c)"
    using pad_seq_in_dict [OF assms(2)] len by (simp add: zeros_def)
  have rows: "\<forall>i<length (zeros 140 22). length (zeros 140 22 ! i) = 22"
    by (simp add: zeros_def)
  from one_hot_loop_ok [OF distinct_upt idx rows] obtain m' where
    m': "one_hot_loop (pad_seq s) [0..<140] (zeros 140 22) = Inr m'"
    "length m' = length (zeros 140 22)"
    "\<forall>i<length (zeros 140 22). m' ! i =
       (if i \<in> set [0..<140] then (zeros 140 22 ! i)[the (AA_DICT (pad_seq s ! i)) := 1]
        else zeros 140 22 ! i)"
    by blast
  have "snd (generate_input s) = Inr m'"
    using m'(1) by (simp add: generate_input_def Let_def NB_MAX_LENGTH_def FEATURE_NUM_def)
  moreover have "length m' = 140"
    using m'(2) by (simp add: zeros_def)
  moreover have "\<forall>i<140. m' ! i = (replicate 22 0)[the (AA_DICT (pad_seq s ! i)) := 1]"
    using m'(3) by (simp add: zeros_def)
  ultimately show ?thesis by blast
qed

text \<open>
  Claim C2. For a sequence of length at most 140 over the 22 symbols of \<^verbatim>\<open>AA_DICT\<close>,
  \<^verbatim>\<open>generate_input\<close> returns a matrix of 140 rows of 22 entries; in row \<open>i\<close> the entry
  in the column that \<^verbatim>\<open>AA_DICT\<close> gives for symbol \<open>i\<close> of the padded sequence is 1
  and every other entry is 0.
\<close>

theorem generate_input_one_hot:
  assumes "length s \<le> 140" and "set s \<subseteq> dom AA_DICT"
  shows "\<exists>m. snd (generate_input s) = Inr m \<and> length m = 140 \<and>
           (\<forall>i<140. length (m ! i) = 22 \<and>
              (\<exists>c<22. AA_DICT (pad_seq s ! i) = Some c \<and> m ! i ! c = 1 \<and>
                 (\<forall>d<22. d \<noteq> c \<longrightarrow> m ! i ! d = 0)))"
proof -
  from generate_input_rows [OF assms] obtain m where
    m: "snd (generate_input s) = Inr m" "length m = 140"
    "\<forall>i<140. m ! i = (replicate 22 0)[the (AA_DICT (pad_seq s ! i)) := 1]"
    by blast
  have len: "length (pad_seq s) = 140"
    using assms(1) by (rule length_pad_seq_short)
  have "length (m ! i) = 22 \<and>
        (\<exists>c<22. AA_DICT (pad_seq s ! i) = Some c \<and> m ! i ! c = 1 \<and>
           (\<forall>d<22. d \<noteq> c \<longrightarrow> m ! i ! d = 0))" if i: "i < 140" for i
  proof -
    from pad_seq_in_dict [OF assms(2)] i len obtain c where
      c: "AA_DICT (pad_seq s ! i) = Some c" by auto
    have c22: "c < 22" using c by (rule AA_DICT_range)
    have row: "m ! i = (replicate 22 0)[c := 1]"
      using m(3) i c by simp
    show ?thesis
      using c c22 row by (auto simp: nth_list_update)
  qed
  then show ?thesis
    using m(1,2) by blast
qed

theorem generate_input_one_hot_witness:
  "length ''CAR'' \<le> 140 \<and> set ''CAR'' \<subseteq> dom AA_DICT \<and>
   (\<exists>m. snd (generate_input ''CAR'') = Inr m \<and> length m = 140 \<and> length (m ! 68) = 22 \<and>
        (\<exists>c<22. AA_DICT (pad_seq ''CAR'' ! 68) = Some c \<and> m ! 68 ! c = 1))"
proof -
  have h1: "length ''CAR'' \<le> 140" by simp
  have h2: "set ''CAR'' \<subseteq> dom AA_DICT"
    by (simp add: AA_DICT_def AA_DICT_items_def dom_def)
  from generate_input_one_hot [OF h1 h2] obtain m where
    m: "snd (generate_input ''CAR'') = Inr m" "length m = 140" and
    rows: "\<forall>i<140. length (m ! i) = 22 \<and>
              (\<exists>c<22. AA_DICT (pad_seq ''CAR'' ! i) = Some c \<and> m ! i ! c = 1 \<and>
                 (\<forall>d<22. d \<noteq> c \<longrightarrow> m ! i ! d = 0))"
    by blast
  have "(68::nat) < 140" by simp
  with rows have "length (m ! 68) = 22 \<and>
      (\<exists>c<22. AA_DICT (pad_seq ''CAR'' ! 68) = Some c \<and> m ! 68 ! c = 1)"
    by blast
  with h1 h2 m show ?thesis by blast
qed

subsection \<open>Facts about the writer\<close>

lemma backbone_range: "[0..<length backbone] = [0, 1, 2, 3, 4]"
  by (simp add: backbone_def upt_rec)

lemma read_coords_ok:
  assumes "aa < length cm" and "15 \<le> length (cm ! aa)" and "j < 5"
  shows "read_coords cm aa j = Inr (cm ! aa ! (3 * j), cm ! aa ! (3 * j + 1), cm ! aa ! (3 * j + 2))"
  using assms by (simp add: read_coords_def getitem_def)

lemma read_coords_no_row:
  assumes "length cm \<le> aa"
  shows "read_coords cm aa j = Inl IndexError"
  using assms by (simp add: read_coords_def getitem_def)

lemma atom_step_ok:
  assumes "aa < length cm" and "15 \<le> length (cm ! aa)" and "j < 5"
    and "one_letter_code o2t (seq ! aa) = Inr code"
  shows "atom_step o2t seq cm aa j w =
     (None, if seq ! aa = CHR ''G'' \<and> backbone ! j = ''CB'' then w
            else w\<lparr>pdb_file := pdb_file w @
                      [ATOM_LINE \<lparr>serial = atom_k w, atom_name = backbone ! j,
                         res_name = code, res_seq = res_i w,
                         coord_x = cm ! aa ! (3 * j), coord_y = cm ! aa ! (3 * j + 1),
                         coord_z = cm ! aa ! (3 * j + 2)\<rparr>],
                    atom_k := atom_k w + 1\<rparr>)"
  using assms by (simp add: atom_step_def read_coords_ok)

lemma residue_step_gap:
  "seq ! aa = CHR ''-'' \<Longrightarrow> residue_step o2t seq cm aa w = (None, w)"
  by (simp add: residue_step_def)

lemma residue_step_ok:
  assumes "seq ! aa \<noteq> CHR ''-''" and "aa < length cm" and "15 \<le> length (cm ! aa)"
    and "one_letter_code o2t (seq ! aa) = Inr code"
  shows "residue_step o2t seq cm aa w =
     (None, \<lparr>res_i = res_i w + 1,
             atom_k = atom_k w + length (res_lines code (cm ! aa) (seq ! aa) (res_i w) (atom_k w)),
             pdb_file = pdb_file w @
               map ATOM_LINE (res_lines code (cm ! aa) (seq ! aa) (res_i w) (atom_k w))\<rparr>)"
proof (cases "seq ! aa = CHR ''G''")
  case True
  show ?thesis
    using assms(1) True
    by (simp add: residue_step_def backbone_range atom_step_ok [OF assms(2,3) _ assms(4)]
        res_lines_def enumerate_eq_zip upt_rec backbone_def)
next
  case False
  show ?thesis
    using assms(1) False
    by (simp add: residue_step_def backbone_range atom_step_ok [OF assms(2,3) _ assms(4)]
        res_lines_def enumerate_eq_zip upt_rec backbone_def)
qed


lemma length_res_lines: "length (res_lines code row c i k) = (if c = CHR ''G'' then 4 else 5)"
  by (simp add: res_lines_def backbone_def upt_rec)

lemma serial_res_lines:
  "map serial (res_lines code row c i k) = [k..<k + (if c = CHR ''G'' then 4 else 5)]"
  by (simp add: res_lines_def backbone_def upt_rec enumerate_eq_zip)

lemma names_res_lines:
  "map (\<lambda>l. (res_seq l, res_name l, atom_name l)) (res_lines code row c i k) =
   map (\<lambda>a. (i, code, a))
       (if c = CHR ''G'' then [''N'', ''CA'', ''C'', ''O''] else [''N'', ''CA'', ''C'', ''O'', ''CB''])"
  by (simp add: res_lines_def backbone_def upt_rec enumerate_eq_zip)

lemma seq_loop_append:
  "seq_loop o2t seq cm (ps @ qs) w =
     (case seq_loop o2t seq cm ps w of
        (Some e, w') \<Rightarrow> (Some e, w')
      | (None, w') \<Rightarrow> seq_loop o2t seq cm qs w')"
  by (induction ps arbitrary: w) (auto split: prod.splits option.splits)

lemma seq_loop_ok:
  assumes "\<forall>aa\<in>set ps. seq ! aa \<noteq> CHR ''-'' \<longrightarrow>
             aa < length cm \<and> 15 \<le> length (cm ! aa) \<and>
             (\<exists>code. one_letter_code o2t (seq ! aa) = Inr code)"
  shows "seq_loop o2t seq cm ps w =
     (None, \<lparr>res_i = res_i w + length (filter (\<lambda>aa. seq ! aa \<noteq> CHR ''-'') ps),
             atom_k = atom_k w + length (seq_lines o2t seq cm ps (res_i w) (atom_k w)),
             pdb_file = pdb_file w @
               map ATOM_LINE (seq_lines o2t seq cm ps (res_i w) (atom_k w))\<rparr>)"
  using assms
proof (induction ps arbitrary: w)
  case Nil
  then show ?case by simp
next
  case (Cons aa ps)
  show ?case
  proof (cases "seq ! aa = CHR ''-''")
    case True
    then show ?thesis
      using Cons.IH [of w] Cons.prems by (simp add: residue_step_gap)
  next
    case False
    with Cons.prems obtain code where
      ok: "aa < length cm" "15 \<le> length (cm ! aa)" "one_letter_code o2t (seq ! aa) = Inr code"
      by auto
    let ?new = "res_lines code (cm ! aa) (seq ! aa) (res_i w) (atom_k w)"
    let ?w1 = "\<lparr>res_i = res_i w + 1, atom_k = atom_k w + length ?new,
                pdb_file = pdb_file w @ map ATOM_LINE ?new\<rparr>"
    have step: "residue_step o2t seq cm aa w = (None, ?w1)"
      using False ok by (rule residue_step_ok)
    have rest: "\<forall>aa\<in>set ps. seq ! aa \<noteq> CHR ''-'' \<longrightarrow>
             aa < length cm \<and> 15 \<le> length (cm ! aa) \<and>
             (\<exists>code. one_letter_code o2t (seq ! aa) = Inr code)"
      using Cons.prems by simp
    show ?thesis
      using False ok(3) Cons.IH [OF rest, of ?w1]
      by (simp add: step length_res_lines)
  qed
qed


lemma length_seq_lines:
  "length (seq_lines o2t seq cm ps i k) + count_list (map ((!) seq) ps) (CHR ''G'') =
   5 * length (residues (map ((!) seq) ps))"
  by (induction ps arbitrary: i k) (simp_all add: residues_def length_res_lines)

lemma serial_seq_lines:
  "map serial (seq_lines o2t seq cm ps i k) = [k..<k + length (seq_lines o2t seq cm ps i k)]"
proof (induction ps arbitrary: i k)
  case Nil
  then show ?case by simp
next
  case (Cons aa ps)
  show ?case
  proof (cases "seq ! aa = CHR ''-''")
    case True
    then show ?thesis using Cons.IH by simp
  next
    case False
    let ?n = "if seq ! aa = CHR ''G'' then 4 else (5::nat)"
    let ?m = "length (seq_lines o2t seq cm ps (i + 1) (k + ?n))"
    have split: "[k..<k + ?n + ?m] = [k..<k + ?n] @ [k + ?n..<k + ?n + ?m]"
      using upt_add_eq_append [of k "k + ?n" ?m] by simp
    have "map serial (seq_lines o2t seq cm (aa # ps) i k) =
          [k..<k + ?n] @ [k + ?n..<k + ?n + ?m]"
      using False Cons.IH [of "i + 1" "k + ?n"] by (simp add: serial_res_lines)
    moreover have "length (seq_lines o2t seq cm (aa # ps) i k) = ?n + ?m"
      using False by (simp add: length_res_lines)
    ultimately show ?thesis
      using split by (simp only: add.assoc)
  qed
qed

lemma triples_seq_lines:
  "map (\<lambda>l. (res_seq l, res_name l, atom_name l)) (seq_lines o2t seq cm ps i k) =
   concat (map (res_triples o2t) (enumerate i (residues (map ((!) seq) ps))))"
  by (induction ps arbitrary: i k)
     (simp_all add: residues_def names_res_lines res_triples_def)

lemma res_triples_fst: "t \<in> set (res_triples o2t (n, c)) \<Longrightarrow> fst t = n"
  by (auto simp: res_triples_def split: if_splits)

lemma triples_above:
  assumes "t \<in> set (concat (map (res_triples o2t) (enumerate j cs)))"
  shows "j \<le> fst t"
proof -
  from assms obtain nc where
    nc: "nc \<in> set (enumerate j cs)" "t \<in> set (res_triples o2t nc)"
    by auto
  have "fst t = fst nc"
    using res_triples_fst [of t o2t "fst nc" "snd nc"] nc(2) by simp
  moreover have "j \<le> fst nc"
    using nc(1) by (auto simp: in_set_enumerate_eq)
  ultimately show ?thesis by simp
qed

lemma filter_triples:
  assumes "n < length cs"
  shows "filter (\<lambda>t. fst t = j + n) (concat (map (res_triples o2t) (enumerate j cs))) =
         res_triples o2t (j + n, cs ! n)"
  using assms
proof (induction cs arbitrary: j n)
  case Nil
  then show ?case by simp
next
  case (Cons c cs)
  let ?tail = "concat (map (res_triples o2t) (enumerate (Suc j) cs))"
  show ?case
  proof (cases n)
    case 0
    have head: "filter (\<lambda>t. fst t = j) (res_triples o2t (j, c)) = res_triples o2t (j, c)"
      using res_triples_fst [of _ o2t j c] by (simp add: filter_id_conv)
    have tail: "filter (\<lambda>t. fst t = j) ?tail = []"
      using triples_above [of _ o2t "Suc j" cs] by (fastforce simp: filter_empty_conv)
    show ?thesis
      using 0 head tail by simp
  next
    case (Suc n')
    have head: "filter (\<lambda>t. fst t = j + n) (res_triples o2t (j, c)) = []"
      using res_triples_fst [of _ o2t j c] Suc by (fastforce simp: filter_empty_conv)
    have "n' < length cs"
      using Cons.prems Suc by simp
    from Cons.IH [OF this, of "Suc j"]
    have tail: "filter (\<lambda>t. fst t = j + n) ?tail = res_triples o2t (j + n, cs ! n')"
      using Suc by simp
    show ?thesis
      using Suc head tail by simp
  qed
qed


lemma atom_lines_append: "atom_lines (ws @ vs) = atom_lines ws @ atom_lines vs"
  by (induction ws rule: atom_lines.induct) simp_all

lemma atom_lines_map: "atom_lines (map ATOM_LINE ls) = ls"
  by (induction ls) simp_all

lemma residues_pad_seq: "residues (pad_seq s) = residues s"
  by (simp add: residues_def pad_seq_def Let_def str_mul_gap)

lemma count_G_pad_seq: "count_list (pad_seq s) (CHR ''G'') = count_list s (CHR ''G'')"
  by (simp add: pad_seq_def Let_def str_mul_gap count_list_0_iff)

lemma pad_seq_nongap:
  assumes "aa < length (pad_seq s)" and "pad_seq s ! aa \<noteq> CHR ''-''"
  shows "pad_seq s ! aa \<in> set s"
proof -
  have "pad_seq s ! aa \<in> set (pad_seq s)"
    using assms(1) by simp
  then show ?thesis
    using set_pad_seq [of s] assms(2) by blast
qed

lemma one_letter_code_ok:
  assumes "c \<noteq> CHR ''X'' \<longrightarrow> (\<exists>t. o2t c = Inr t)"
  shows "\<exists>code. one_letter_code o2t c = Inr code"
  using assms by (auto simp: one_letter_code_def)

lemma matrix_to_pdb_ok:
  assumes rows: "\<forall>aa<length (pad_seq s). pad_seq s ! aa \<noteq> CHR ''-'' \<longrightarrow>
                   aa < length cm \<and> 15 \<le> length (cm ! aa)"
    and codes: "\<forall>c\<in>set s. c \<noteq> CHR ''-'' \<and> c \<noteq> CHR ''X'' \<longrightarrow> (\<exists>t. o2t c = Inr t)"
  shows "matrix_to_pdb o2t s cm =
     (None, \<lparr>res_i = 1 + length (residues s),
             atom_k = 1 + length (seq_lines o2t (pad_seq s) cm [0..<length (pad_seq s)] 1 1),
             pdb_file = map ATOM_LINE (seq_lines o2t (pad_seq s) cm [0..<length (pad_seq s)] 1 1)
                        @ [END_LINE]\<rparr>)"
proof -
  let ?seq = "pad_seq s"
  let ?ps = "[0..<length ?seq]"
  have ok: "\<forall>aa\<in>set ?ps. ?seq ! aa \<noteq> CHR ''-'' \<longrightarrow>
             aa < length cm \<and> 15 \<le> length (cm ! aa) \<and>
             (\<exists>code. one_letter_code o2t (?seq ! aa) = Inr code)"
  proof (intro ballI impI)
    fix aa assume aa: "aa \<in> set ?ps" and ng: "?seq ! aa \<noteq> CHR ''-''"
    have lt: "aa < length ?seq" using aa by simp
    have "?seq ! aa \<in> set s" using lt ng by (rule pad_seq_nongap)
    then have "?seq ! aa \<noteq> CHR ''X'' \<longrightarrow> (\<exists>t. o2t (?seq ! aa) = Inr t)"
      using codes ng by blast
    then have "\<exists>code. one_letter_code o2t (?seq ! aa) = Inr code"
      by (rule one_letter_code_ok)
    then show "aa < length cm \<and> 15 \<le> length (cm ! aa) \<and>
             (\<exists>code. one_letter_code o2t (?seq ! aa) = Inr code)"
      using rows lt ng by blast
  qed
  have "length (filter (\<lambda>aa. ?seq ! aa \<noteq> CHR ''-'') ?ps) = length (residues (map ((!) ?seq) ?ps))"
    by (simp add: residues_def filter_map comp_def)
  then have n: "length (filter (\<lambda>aa. ?seq ! aa \<noteq> CHR ''-'') ?ps) = length (residues s)"
    by (simp add: map_nth residues_pad_seq)
  show ?thesis
    unfolding matrix_to_pdb_def Let_def seq_loop_ok [OF ok] n by simp
qed

lemma length_pdb_lines:
  "length (seq_lines o2t (pad_seq s) cm [0..<length (pad_seq s)] i k) + count_list s (CHR ''G'') =
   5 * length (residues s)"
  using length_seq_lines [of o2t "pad_seq s" cm "[0..<length (pad_seq s)]" i k]
  by (simp add: map_nth residues_pad_seq count_G_pad_seq)

lemma triples_pdb_lines:
  "map (\<lambda>l. (res_seq l, res_name l, atom_name l))
       (seq_lines o2t (pad_seq s) cm [0..<length (pad_seq s)] i k) =
   concat (map (res_triples o2t) (enumerate i (residues s)))"
  using triples_seq_lines [of o2t "pad_seq s" cm "[0..<length (pad_seq s)]" i k]
  by (simp add: map_nth residues_pad_seq)

lemma residue_pdb_lines:
  assumes "n < length (residues s)"
  shows "map (\<lambda>l. (res_name l, atom_name l))
           (filter (\<lambda>l. res_seq l = Suc n)
              (seq_lines o2t (pad_seq s) cm [0..<length (pad_seq s)] 1 1)) =
         map snd (res_triples o2t (Suc n, residues s ! n))"
proof -
  let ?L = "seq_lines o2t (pad_seq s) cm [0..<length (pad_seq s)] 1 1"
  let ?proj = "\<lambda>l. (res_seq l, res_name l, atom_name l)"
  have "map ?proj (filter (\<lambda>l. res_seq l = Suc n) ?L) =
        filter (\<lambda>t. fst t = 1 + n) (map ?proj ?L)"
    by (simp add: filter_map comp_def)
  also have "\<dots> = res_triples o2t (1 + n, residues s ! n)"
    unfolding triples_pdb_lines using assms by (rule filter_triples)
  finally have "map snd (map ?proj (filter (\<lambda>l. res_seq l = Suc n) ?L)) =
        map snd (res_triples o2t (Suc n, residues s ! n))"
    by simp
  then show ?thesis
    by (simp add: comp_def)
qed

text \<open>
  Claim C3. When every non-gap position of the padded sequence has a row of 15
  coordinates and \<^verbatim>\<open>one_to_three\<close> knows every residue symbol of the sequence, the writer
  ends normally and the number of atom records is five times the number of non-gap
  residues minus the number of \<open>G\<close> residues. The atom serials are \<open>1, 2, 3, \<dots>\<close> without
  a hole, and the records of a \<open>G\<close> residue are exactly \<open>N\<close>, \<open>CA\<close>, \<open>C\<close>, \<open>O\<close>.
\<close>

theorem matrix_to_pdb_atom_count:
  assumes rows: "\<forall>aa<length (pad_seq s). pad_seq s ! aa \<noteq> CHR ''-'' \<longrightarrow>
                   aa < length cm \<and> 15 \<le> length (cm ! aa)"
    and codes: "\<forall>c\<in>set s. c \<noteq> CHR ''-'' \<and> c \<noteq> CHR ''X'' \<longrightarrow> (\<exists>t. o2t c = Inr t)"
  shows "\<exists>w. matrix_to_pdb o2t s cm = (None, w)
       \<and> length (atom_lines (pdb_file w)) + count_list s (CHR ''G'') = 5 * length (residues s)
       \<and> length (atom_lines (pdb_file w)) = 5 * length (residues s) - count_list s (CHR ''G'')
       \<and> map serial (atom_lines (pdb_file w)) = [1..<Suc (length (atom_lines (pdb_file w)))]
       \<and> (\<forall>n<length (residues s). residues s ! n = CHR ''G'' \<longrightarrow>
            map atom_name (filter (\<lambda>l. res_seq l = Suc n) (atom_lines (pdb_file w))) =
            [''N'', ''CA'', ''C'', ''O''])"
proof -
  let ?L = "seq_lines o2t (pad_seq s) cm [0..<length (pad_seq s)] 1 1"
  let ?w = "\<lparr>res_i = 1 + length (residues s), atom_k = 1 + length ?L,
             pdb_file = map ATOM_LINE ?L @ [END_LINE]\<rparr>"
  have run: "matrix_to_pdb o2t s cm = (None, ?w)"
    using rows codes by (rule matrix_to_pdb_ok)
  have lines: "atom_lines (pdb_file ?w) = ?L"
    by (simp add: atom_lines_append atom_lines_map)
  have count: "length ?L + count_list s (CHR ''G'') = 5 * length (residues s)"
    by (rule length_pdb_lines)
  then have count': "length ?L = 5 * length (residues s) - count_list s (CHR ''G'')"
    by simp
  have serials: "map serial ?L = [1..<Suc (length ?L)]"
    using serial_seq_lines [of o2t "pad_seq s" cm "[0..<length (pad_seq s)]" 1 1] by simp
  have gly: "map atom_name (filter (\<lambda>l. res_seq l = Suc n) ?L) = [''N'', ''CA'', ''C'', ''O'']"
    if n: "n < length (residues s)" and g: "residues s ! n = CHR ''G''" for n
  proof -
    have "map snd (map (\<lambda>l. (res_name l, atom_name l)) (filter (\<lambda>l. res_seq l = Suc n) ?L)) =
          map snd (map snd (res_triples o2t (Suc n, residues s ! n)))"
      using residue_pdb_lines [OF n, of o2t cm] by simp
    then show ?thesis
      using g by (simp add: comp_def res_triples_def)
  qed
  have "length (atom_lines (pdb_file ?w)) + count_list s (CHR ''G'') = 5 * length (residues s)
       \<and> length (atom_lines (pdb_file ?w)) = 5 * length (residues s) - count_list s (CHR ''G'')
       \<and> map serial (atom_lines (pdb_file ?w)) = [1..<Suc (length (atom_lines (pdb_file ?w)))]
       \<and> (\<forall>n<length (residues s). residues s ! n = CHR ''G'' \<longrightarrow>
            map atom_name (filter (\<lambda>l. res_seq l = Suc n) (atom_lines (pdb_file ?w))) =
            [''N'', ''CA'', ''C'', ''O''])"
    unfolding lines using count count' serials gly by (intro conjI allI impI)
  with run show ?thesis
    by (intro exI [of _ ?w] conjI) (elim conjE, assumption)+
qed

theorem matrix_to_pdb_atom_count_witness:
  "length (pad_seq ''GA'') = 140
   \<and> (\<exists>w. matrix_to_pdb std_one_to_three ''GA'' (replicate 140 (replicate 15 (0::int))) = (None, w)
        \<and> length (atom_lines (pdb_file w)) = 9
        \<and> map serial (atom_lines (pdb_file w)) = [1, 2, 3, 4, 5, 6, 7, 8, 9]
        \<and> map atom_name (filter (\<lambda>l. res_seq l = 1) (atom_lines (pdb_file w))) =
            [''N'', ''CA'', ''C'', ''O''])"
proof -
  let ?cm = "replicate 140 (replicate 15 (0::int))"
  have len: "length (pad_seq ''GA'') = 140"
    by (simp add: length_pad_seq_short)
  have h1: "\<forall>aa<length (pad_seq ''GA''). pad_seq ''GA'' ! aa \<noteq> CHR ''-'' \<longrightarrow>
      aa < length ?cm \<and> 15 \<le> length (?cm ! aa)"
    unfolding len by simp
  have h2: "\<forall>c\<in>set ''GA''. c \<noteq> CHR ''-'' \<and> c \<noteq> CHR ''X'' \<longrightarrow> (\<exists>t. std_one_to_three c = Inr t)"
    by (simp add: std_one_to_three_def std_three_items_def)
  have res: "residues ''GA'' = ''GA''"
    by (simp add: residues_def)
  from matrix_to_pdb_atom_count [OF h1 h2] obtain w where
    w: "matrix_to_pdb std_one_to_three ''GA'' ?cm = (None, w)
       \<and> length (atom_lines (pdb_file w)) + count_list ''GA'' (CHR ''G'') = 5 * length (residues ''GA'')
       \<and> length (atom_lines (pdb_file w)) = 5 * length (residues ''GA'') - count_list ''GA'' (CHR ''G'')
       \<and> map serial (atom_lines (pdb_file w)) = [1..<Suc (length (atom_lines (pdb_file w)))]
       \<and> (\<forall>n<length (residues ''GA''). residues ''GA'' ! n = CHR ''G'' \<longrightarrow>
            map atom_name (filter (\<lambda>l. res_seq l = Suc n) (atom_lines (pdb_file w))) =
            [''N'', ''CA'', ''C'', ''O''])"
    by (rule exE)
  note w1 = w [THEN conjunct1]
  note w3 = w [THEN conjunct2, THEN conjunct2, THEN conjunct1]
  note w4 = w [THEN conjunct2, THEN conjunct2, THEN conjunct2, THEN conjunct1]
  note w5 = w [THEN conjunct2, THEN conjunct2, THEN conjunct2, THEN conjunct2]
  have n9: "length (atom_lines (pdb_file w)) = 9"
    using w3 by (simp add: res)
  have ser: "map serial (atom_lines (pdb_file w)) = [1, 2, 3, 4, 5, 6, 7, 8, 9]"
    using w4 unfolding n9 by (simp add: upt_rec)
  have "(0::nat) < length (residues ''GA'')" and "residues ''GA'' ! 0 = CHR ''G''"
    by (simp_all add: res)
  with w5 have gly: "map atom_name (filter (\<lambda>l. res_seq l = 1) (atom_lines (pdb_file w))) =
            [''N'', ''CA'', ''C'', ''O'']"
    by fastforce
  have "\<exists>w. matrix_to_pdb std_one_to_three ''GA'' ?cm = (None, w)
        \<and> length (atom_lines (pdb_file w)) = 9
        \<and> map serial (atom_lines (pdb_file w)) = [1, 2, 3, 4, 5, 6, 7, 8, 9]
        \<and> map atom_name (filter (\<lambda>l. res_seq l = 1) (atom_lines (pdb_file w))) =
            [''N'', ''CA'', ''C'', ''O'']"
    using w1 n9 ser gly by (intro exI [of _ w] conjI)
  with len show ?thesis
    by (intro conjI)
qed

lemma triples_below:
  assumes "t \<in> set (concat (map (res_triples o2t) (enumerate j cs)))"
  shows "fst t < j + length cs"
proof -
  from assms obtain nc where
    nc: "nc \<in> set (enumerate j cs)" "t \<in> set (res_triples o2t nc)"
    by auto
  have "fst t = fst nc"
    using res_triples_fst [of t o2t "fst nc" "snd nc"] nc(2) by simp
  moreover have "fst nc < j + length cs"
    using nc(1) by (auto simp: in_set_enumerate_eq)
  ultimately show ?thesis by simp
qed

lemma res_seq_pdb_lines:
  assumes "l \<in> set (seq_lines o2t (pad_seq s) cm [0..<length (pad_seq s)] 1 1)"
  shows "1 \<le> res_seq l \<and> res_seq l \<le> length (residues s)"
proof -
  let ?L = "seq_lines o2t (pad_seq s) cm [0..<length (pad_seq s)] 1 1"
  let ?proj = "\<lambda>l. (res_seq l, res_name l, atom_name l)"
  have "?proj l \<in> set (map ?proj ?L)"
    using assms by (rule imageI [of l "set ?L" ?proj, unfolded set_map [symmetric]])
  then have mem: "?proj l \<in> set (concat (map (res_triples o2t) (enumerate 1 (residues s))))"
    unfolding triples_pdb_lines .
  from triples_above [OF mem] triples_below [OF mem] show ?thesis
    by simp
qed

lemma pad_seq_nth:
  assumes "length s \<le> 140" and "p < length s"
  shows "pad_seq s ! ((140 - length s) div 2 + p) = s ! p"
  using assms by (simp add: pad_seq_short nth_append)

text \<open>
  Claim C7. A sequence of length at most 140 over the alphabet that contains \<open>X\<close> raises
  nothing: \<^verbatim>\<open>generate_input\<close> prints one warning line and returns the matrix, in which
  every \<open>X\<close> position has its 1 in column 20; and the writer (given the rows it needs and a
  \<^verbatim>\<open>one_to_three\<close> that knows the other residues) ends normally and writes the five atom
  records of each \<open>X\<close> residue with the code \<open>UNK\<close>.
\<close>

theorem unknown_residue_X:
  assumes len: "length s \<le> 140" and alpha: "set s \<subseteq> dom AA_DICT"
    and x: "CHR ''X'' \<in> set s"
    and rows: "\<forall>aa<length (pad_seq s). pad_seq s ! aa \<noteq> CHR ''-'' \<longrightarrow>
                   aa < length cm \<and> 15 \<le> length (cm ! aa)"
    and codes: "\<forall>c\<in>set s. c \<noteq> CHR ''-'' \<and> c \<noteq> CHR ''X'' \<longrightarrow> (\<exists>t. o2t c = Inr t)"
  shows "fst (generate_input s) = [''Warning, sequence: '' @ s @ '', has unknown aa'']
       \<and> (\<exists>m. snd (generate_input s) = Inr m
            \<and> (\<forall>i<140. pad_seq s ! i = CHR ''X'' \<longrightarrow>
                  m ! i ! 20 = 1 \<and> (\<forall>d<22. d \<noteq> 20 \<longrightarrow> m ! i ! d = 0)))
       \<and> (\<exists>w. matrix_to_pdb o2t s cm = (None, w)
            \<and> (\<forall>n<length (residues s). residues s ! n = CHR ''X'' \<longrightarrow>
                  map (\<lambda>l. (res_name l, atom_name l))
                      (filter (\<lambda>l. res_seq l = Suc n) (atom_lines (pdb_file w))) =
                  [(''UNK'', ''N''), (''UNK'', ''CA''), (''UNK'', ''C''), (''UNK'', ''O''),
                   (''UNK'', ''CB'')]))"
proof -
  have warn: "fst (generate_input s) = [''Warning, sequence: '' @ s @ '', has unknown aa'']"
    using x by (simp add: generate_input_def Let_def)
  from generate_input_rows [OF len alpha] obtain m where
    m: "snd (generate_input s) = Inr m" and
    mrows: "\<forall>i<140. m ! i = (replicate 22 0)[the (AA_DICT (pad_seq s ! i)) := 1]"
    by blast
  have enc: "\<forall>i<140. pad_seq s ! i = CHR ''X'' \<longrightarrow>
                  m ! i ! 20 = 1 \<and> (\<forall>d<22. d \<noteq> 20 \<longrightarrow> m ! i ! d = 0)"
    using mrows by (simp add: AA_DICT_X)
  let ?L = "seq_lines o2t (pad_seq s) cm [0..<length (pad_seq s)] 1 1"
  let ?w = "\<lparr>res_i = 1 + length (residues s), atom_k = 1 + length ?L,
             pdb_file = map ATOM_LINE ?L @ [END_LINE]\<rparr>"
  have run: "matrix_to_pdb o2t s cm = (None, ?w)"
    using rows codes by (rule matrix_to_pdb_ok)
  have lines: "atom_lines (pdb_file ?w) = ?L"
    by (simp add: atom_lines_append atom_lines_map)
  have unk: "map (\<lambda>l. (res_name l, atom_name l)) (filter (\<lambda>l. res_seq l = Suc n) ?L) =
          [(''UNK'', ''N''), (''UNK'', ''CA''), (''UNK'', ''C''), (''UNK'', ''O''),
           (''UNK'', ''CB'')]"
    if n: "n < length (residues s)" and xn: "residues s ! n = CHR ''X''" for n
    using residue_pdb_lines [OF n, of o2t cm] xn
    by (simp add: res_triples_def one_letter_code_def)
  have wr: "\<exists>w. matrix_to_pdb o2t s cm = (None, w)
            \<and> (\<forall>n<length (residues s). residues s ! n = CHR ''X'' \<longrightarrow>
                  map (\<lambda>l. (res_name l, atom_name l))
                      (filter (\<lambda>l. res_seq l = Suc n) (atom_lines (pdb_file w))) =
                  [(''UNK'', ''N''), (''UNK'', ''CA''), (''UNK'', ''C''), (''UNK'', ''O''),
                   (''UNK'', ''CB'')])"
    unfolding run using unk lines by (intro exI [of _ ?w]) simp
  have en: "\<exists>m. snd (generate_input s) = Inr m
            \<and> (\<forall>i<140. pad_seq s ! i = CHR ''X'' \<longrightarrow>
                  m ! i ! 20 = 1 \<and> (\<forall>d<22. d \<noteq> 20 \<longrightarrow> m ! i ! d = 0))"
    using m enc by (intro exI [of _ m] conjI)
  from warn en wr show ?thesis
    by (intro conjI)
qed

theorem unknown_residue_X_witness:
  "length ''AX'' \<le> 140 \<and> set ''AX'' \<subseteq> dom AA_DICT \<and> CHR ''X'' \<in> set ''AX''
   \<and> fst (generate_input ''AX'') = [''Warning, sequence: AX, has unknown aa'']
   \<and> (\<exists>m. snd (generate_input ''AX'') = Inr m \<and> m ! 70 ! 20 = 1)
   \<and> (\<exists>w. matrix_to_pdb std_one_to_three ''AX'' (replicate 140 (replicate 15 (0::int))) = (None, w)
        \<and> map (\<lambda>l. (res_name l, atom_name l))
               (filter (\<lambda>l. res_seq l = 2) (atom_lines (pdb_file w))) =
            [(''UNK'', ''N''), (''UNK'', ''CA''), (''UNK'', ''C''), (''UNK'', ''O''),
             (''UNK'', ''CB'')])"
proof -
  let ?cm = "replicate 140 (replicate 15 (0::int))"
  have len: "length (pad_seq ''AX'') = 140"
    by (simp add: length_pad_seq_short)
  have h1: "length ''AX'' \<le> 140" by simp
  have h2: "set ''AX'' \<subseteq> dom AA_DICT"
    by (simp add: AA_DICT_def AA_DICT_items_def dom_def)
  have h3: "CHR ''X'' \<in> set ''AX''" by simp
  have h4: "\<forall>aa<length (pad_seq ''AX''). pad_seq ''AX'' ! aa \<noteq> CHR ''-'' \<longrightarrow>
      aa < length ?cm \<and> 15 \<le> length (?cm ! aa)"
    unfolding len by simp
  have h5: "\<forall>c\<in>set ''AX''. c \<noteq> CHR ''-'' \<and> c \<noteq> CHR ''X'' \<longrightarrow> (\<exists>t. std_one_to_three c = Inr t)"
    by (simp add: std_one_to_three_def std_three_items_def)
  have res: "residues ''AX'' = ''AX''"
    by (simp add: residues_def)
  have at70: "pad_seq ''AX'' ! 70 = CHR ''X''"
    using pad_seq_nth [of "''AX''" 1] by simp
  note inst = unknown_residue_X [OF h1 h2 h3 h4 h5]
  have warn: "fst (generate_input ''AX'') = [''Warning, sequence: AX, has unknown aa'']"
    using inst [THEN conjunct1] by simp
  from inst [THEN conjunct2, THEN conjunct1] obtain m where
    m: "snd (generate_input ''AX'') = Inr m
        \<and> (\<forall>i<140. pad_seq ''AX'' ! i = CHR ''X'' \<longrightarrow>
              m ! i ! 20 = 1 \<and> (\<forall>d<22. d \<noteq> 20 \<longrightarrow> m ! i ! d = 0))"
    by (rule exE)
  have "(70::nat) < 140" by simp
  with m at70 have "m ! 70 ! 20 = 1" by blast
  with m have en: "\<exists>m. snd (generate_input ''AX'') = Inr m \<and> m ! 70 ! 20 = 1"
    by (intro exI [of _ m] conjI) simp_all
  from inst [THEN conjunct2, THEN conjunct2] obtain w where
    w: "matrix_to_pdb std_one_to_three ''AX'' ?cm = (None, w)
        \<and> (\<forall>n<length (residues ''AX''). residues ''AX'' ! n = CHR ''X'' \<longrightarrow>
              map (\<lambda>l. (res_name l, atom_name l))
                  (filter (\<lambda>l. res_seq l = Suc n) (atom_lines (pdb_file w))) =
              [(''UNK'', ''N''), (''UNK'', ''CA''), (''UNK'', ''C''), (''UNK'', ''O''),
               (''UNK'', ''CB'')])"
    by (rule exE)
  have "(1::nat) < length (residues ''AX'')" and "residues ''AX'' ! 1 = CHR ''X''"
    by (simp_all add: res)
  with w have "map (\<lambda>l. (res_name l, atom_name l))
                  (filter (\<lambda>l. res_seq l = Suc 1) (atom_lines (pdb_file w))) =
              [(''UNK'', ''N''), (''UNK'', ''CA''), (''UNK'', ''C''), (''UNK'', ''O''),
               (''UNK'', ''CB'')]"
    by blast
  then have "map (\<lambda>l. (res_name l, atom_name l))
                  (filter (\<lambda>l. res_seq l = 2) (atom_lines (pdb_file w))) =
              [(''UNK'', ''N''), (''UNK'', ''CA''), (''UNK'', ''C''), (''UNK'', ''O''),
               (''UNK'', ''CB'')]"
    by (simp only: Suc_1)
  with w have wr: "\<exists>w. matrix_to_pdb std_one_to_three ''AX'' ?cm = (None, w)
        \<and> map (\<lambda>l. (res_name l, atom_name l))
               (filter (\<lambda>l. res_seq l = 2) (atom_lines (pdb_file w))) =
            [(''UNK'', ''N''), (''UNK'', ''CA''), (''UNK'', ''C''), (''UNK'', ''O''),
             (''UNK'', ''CB'')]"
    by (intro exI [of _ w] conjI) (elim conjE, assumption)+
  from h1 h2 h3 warn en wr show ?thesis
    by (intro conjI)
qed

text \<open>
  Claim C10. When the input sequence itself holds a gap symbol at index \<open>p\<close> (length at
  most 140, symbols of the alphabet), the encoder raises nothing and the row of that
  position has its 1 in column 21; the writer's step at that position leaves the state as
  it is, the call ends normally, every residue serial written lies between 1 and the
  number of non-gap symbols, and that number is smaller than the length of the sequence.
\<close>

theorem gap_in_sequence:
  assumes len: "length s \<le> 140" and alpha: "set s \<subseteq> dom AA_DICT"
    and p: "p < length s" and gap: "s ! p = CHR ''-''"
    and rows: "\<forall>aa<length (pad_seq s). pad_seq s ! aa \<noteq> CHR ''-'' \<longrightarrow>
                   aa < length cm \<and> 15 \<le> length (cm ! aa)"
    and codes: "\<forall>c\<in>set s. c \<noteq> CHR ''-'' \<and> c \<noteq> CHR ''X'' \<longrightarrow> (\<exists>t. o2t c = Inr t)"
  shows "(\<exists>m. snd (generate_input s) = Inr m
            \<and> m ! ((140 - length s) div 2 + p) ! 21 = 1
            \<and> (\<forall>d<22. d \<noteq> 21 \<longrightarrow> m ! ((140 - length s) div 2 + p) ! d = 0))
       \<and> (\<forall>v. residue_step o2t (pad_seq s) cm ((140 - length s) div 2 + p) v = (None, v))
       \<and> (\<exists>w. matrix_to_pdb o2t s cm = (None, w)
            \<and> res_i w = Suc (length (residues s))
            \<and> (\<forall>l\<in>set (atom_lines (pdb_file w)).
                  1 \<le> res_seq l \<and> res_seq l \<le> length (residues s))
            \<and> length (atom_lines (pdb_file w)) + count_list s (CHR ''G'') =
                5 * length (residues s))
       \<and> length (residues s) < length s"
proof -
  let ?q = "(140 - length s) div 2 + p"
  have q: "?q < 140"
    using len p by simp
  have at: "pad_seq s ! ?q = CHR ''-''"
    using pad_seq_nth [OF len p] gap by simp
  from generate_input_rows [OF len alpha] obtain m where
    m: "snd (generate_input s) = Inr m" and
    mrows: "\<forall>i<140. m ! i = (replicate 22 0)[the (AA_DICT (pad_seq s ! i)) := 1]"
    by blast
  have row: "m ! ?q = (replicate 22 0)[21 := 1]"
    using mrows q at by (simp add: AA_DICT_gap)
  have en: "\<exists>m. snd (generate_input s) = Inr m
            \<and> m ! ?q ! 21 = 1 \<and> (\<forall>d<22. d \<noteq> 21 \<longrightarrow> m ! ?q ! d = 0)"
    using m row by (intro exI [of _ m]) simp
  have step: "\<forall>v. residue_step o2t (pad_seq s) cm ?q v = (None, v)"
    using at by (simp add: residue_step_gap)
  let ?L = "seq_lines o2t (pad_seq s) cm [0..<length (pad_seq s)] 1 1"
  let ?w = "\<lparr>res_i = 1 + length (residues s), atom_k = 1 + length ?L,
             pdb_file = map ATOM_LINE ?L @ [END_LINE]\<rparr>"
  have run: "matrix_to_pdb o2t s cm = (None, ?w)"
    using rows codes by (rule matrix_to_pdb_ok)
  have lines: "atom_lines (pdb_file ?w) = ?L"
    by (simp add: atom_lines_append atom_lines_map)
  have wr: "\<exists>w. matrix_to_pdb o2t s cm = (None, w)
            \<and> res_i w = Suc (length (residues s))
            \<and> (\<forall>l\<in>set (atom_lines (pdb_file w)).
                  1 \<le> res_seq l \<and> res_seq l \<le> length (residues s))
            \<and> length (atom_lines (pdb_file w)) + count_list s (CHR ''G'') =
                5 * length (residues s)"
  proof (intro exI [of _ ?w] conjI)
    show "matrix_to_pdb o2t s cm = (None, ?w)" by (rule run)
    show "res_i ?w = Suc (length (residues s))" by simp
    show "\<forall>l\<in>set (atom_lines (pdb_file ?w)).
            1 \<le> res_seq l \<and> res_seq l \<le> length (residues s)"
      unfolding lines using res_seq_pdb_lines [of _ o2t s cm] by blast
    show "length (atom_lines (pdb_file ?w)) + count_list s (CHR ''G'') =
            5 * length (residues s)"
      unfolding lines by (rule length_pdb_lines)
  qed
  have "s ! p \<in> set s"
    using p by simp
  then have fewer: "length (residues s) < length s"
    unfolding residues_def using gap by (intro length_filter_less [of "s ! p"]) simp_all
  from en step wr fewer show ?thesis
    by (intro conjI)
qed

theorem gap_in_sequence_witness:
  "length ''A-G'' \<le> 140 \<and> set ''A-G'' \<subseteq> dom AA_DICT
   \<and> (1::nat) < length ''A-G'' \<and> ''A-G'' ! 1 = CHR ''-''
   \<and> (\<exists>m. snd (generate_input ''A-G'') = Inr m \<and> m ! 69 ! 21 = 1)
   \<and> (\<exists>w. matrix_to_pdb std_one_to_three ''A-G'' (replicate 140 (replicate 15 (0::int))) = (None, w)
        \<and> res_i w = 3 \<and> length (atom_lines (pdb_file w)) = 9)
   \<and> length (residues ''A-G'') < length ''A-G''"
proof -
  let ?cm = "replicate 140 (replicate 15 (0::int))"
  have len: "length (pad_seq ''A-G'') = 140"
    by (simp add: length_pad_seq_short)
  have h1: "length ''A-G'' \<le> 140" by simp
  have h2: "set ''A-G'' \<subseteq> dom AA_DICT"
    by (simp add: AA_DICT_def AA_DICT_items_def dom_def)
  have h3: "(1::nat) < length ''A-G''" by simp
  have h4: "''A-G'' ! 1 = CHR ''-''" by simp
  have h5: "\<forall>aa<length (pad_seq ''A-G''). pad_seq ''A-G'' ! aa \<noteq> CHR ''-'' \<longrightarrow>
      aa < length ?cm \<and> 15 \<le> length (?cm ! aa)"
    unfolding len by simp
  have h6: "\<forall>c\<in>set ''A-G''. c \<noteq> CHR ''-'' \<and> c \<noteq> CHR ''X'' \<longrightarrow> (\<exists>t. std_one_to_three c = Inr t)"
    by (simp add: std_one_to_three_def std_three_items_def)
  have res: "residues ''A-G'' = ''AG''"
    by (simp add: residues_def)
  have q: "(140 - length ''A-G'') div 2 + 1 = 69"
    by simp
  note inst = gap_in_sequence [OF h1 h2 h3 h4 h5 h6, unfolded q]
  from inst [THEN conjunct1] obtain m where
    m: "snd (generate_input ''A-G'') = Inr m \<and> m ! 69 ! 21 = 1
        \<and> (\<forall>d<22. d \<noteq> 21 \<longrightarrow> m ! 69 ! d = 0)"
    by (rule exE)
  then have en: "\<exists>m. snd (generate_input ''A-G'') = Inr m \<and> m ! 69 ! 21 = 1"
    by (intro exI [of _ m] conjI) (elim conjE, assumption)+
  from inst [THEN conjunct2, THEN conjunct2, THEN conjunct1] obtain w where
    w: "matrix_to_pdb std_one_to_three ''A-G'' ?cm = (None, w)
        \<and> res_i w = Suc (length (residues ''A-G''))
        \<and> (\<forall>l\<in>set (atom_lines (pdb_file w)).
              1 \<le> res_seq l \<and> res_seq l \<le> length (residues ''A-G''))
        \<and> length (atom_lines (pdb_file w)) + count_list ''A-G'' (CHR ''G'') =
            5 * length (residues ''A-G'')"
    by (rule exE)
  have w1: "matrix_to_pdb std_one_to_three ''A-G'' ?cm = (None, w)"
    using w by (elim conjE)
  have w2: "res_i w = 3"
    using w by (simp add: res)
  have w3: "length (atom_lines (pdb_file w)) = 9"
    using w by (simp add: res)
  have wr: "\<exists>w. matrix_to_pdb std_one_to_three ''A-G'' ?cm = (None, w)
        \<and> res_i w = 3 \<and> length (atom_lines (pdb_file w)) = 9"
    using w1 w2 w3 by (intro exI [of _ w] conjI)
  note fewer = inst [THEN conjunct2, THEN conjunct2, THEN conjunct2]
  from h1 h2 h3 h4 en wr fewer show ?thesis
    by (intro conjI)
qed

subsection \<open>What every step keeps, whether it raises or not\<close>

lemma atom_step_inv:
  assumes "atom_step o2t seq cm aa j w = (r, w')"
  shows "res_i w' = res_i w \<and>
         (\<exists>new. pdb_file w' = pdb_file w @ map ATOM_LINE new \<and>
                atom_k w' = atom_k w + length new)"
proof (cases "w' = w")
  case True
  then show ?thesis
    by (intro conjI exI [of _ "[]"]) simp_all
next
  case False
  with assms obtain a where
    "w' = w\<lparr>pdb_file := pdb_file w @ [ATOM_LINE a], atom_k := atom_k w + 1\<rparr>"
    by (auto simp: atom_step_def split: sum.splits prod.splits if_splits)
  then show ?thesis
    by (intro conjI exI [of _ "[a]"]) simp_all
qed

lemma backbone_loop_inv:
  assumes "backbone_loop o2t seq cm aa js w = (r, w')"
  shows "res_i w' = res_i w \<and>
         (\<exists>new. pdb_file w' = pdb_file w @ map ATOM_LINE new \<and>
                atom_k w' = atom_k w + length new)"
  using assms
proof (induction js arbitrary: w)
  case Nil
  then show ?case
    by (intro conjI exI [of _ "[]"]) simp_all
next
  case (Cons j js)
  obtain r1 w1 where s1: "atom_step o2t seq cm aa j w = (r1, w1)"
    by (cases "atom_step o2t seq cm aa j w")
  from atom_step_inv [OF s1] obtain new1 where
    a: "res_i w1 = res_i w" "pdb_file w1 = pdb_file w @ map ATOM_LINE new1"
       "atom_k w1 = atom_k w + length new1"
    by blast
  show ?case
  proof (cases r1)
    case (Some e)
    then have "w' = w1"
      using Cons.prems s1 by simp
    then show ?thesis
      using a by (intro conjI exI [of _ new1]) simp_all
  next
    case None
    then have "backbone_loop o2t seq cm aa js w1 = (r, w')"
      using Cons.prems s1 by simp
    from Cons.IH [OF this] obtain new2 where
      b: "res_i w' = res_i w1" "pdb_file w' = pdb_file w1 @ map ATOM_LINE new2"
         "atom_k w' = atom_k w1 + length new2"
      by blast
    show ?thesis
      using a b by (intro conjI exI [of _ "new1 @ new2"]) simp_all
  qed
qed

lemma residue_step_inv:
  assumes "residue_step o2t seq cm aa w = (r, w')"
  shows "(\<exists>new. pdb_file w' = pdb_file w @ map ATOM_LINE new \<and>
                atom_k w' = atom_k w + length new) \<and>
         res_i w' = res_i w + (if seq ! aa \<noteq> CHR ''-'' \<and> r = None then 1 else 0)"
proof (cases "seq ! aa = CHR ''-''")
  case True
  then have "w' = w"
    using assms by (simp add: residue_step_def)
  then show ?thesis
    using True by (intro conjI exI [of _ "[]"]) simp_all
next
  case False
  obtain r1 w1 where
    s1: "backbone_loop o2t seq cm aa [0..<length backbone] w = (r1, w1)"
    by (cases "backbone_loop o2t seq cm aa [0..<length backbone] w")
  from backbone_loop_inv [OF s1] obtain new where
    a: "res_i w1 = res_i w" "pdb_file w1 = pdb_file w @ map ATOM_LINE new"
       "atom_k w1 = atom_k w + length new"
    by blast
  show ?thesis
  proof (cases r1)
    case (Some e)
    then have "w' = w1" "r = Some e"
      using assms s1 False by (simp_all add: residue_step_def)
    then show ?thesis
      using a by (intro conjI exI [of _ new]) simp_all
  next
    case None
    then have "w' = w1\<lparr>res_i := res_i w1 + 1\<rparr>" "r = None"
      using assms s1 False by (simp_all add: residue_step_def)
    then show ?thesis
      using a False by (intro conjI exI [of _ new]) simp_all
  qed
qed

lemma seq_loop_inv:
  assumes "seq_loop o2t seq cm ps w = (r, w')"
  shows "(\<exists>new. pdb_file w' = pdb_file w @ map ATOM_LINE new \<and>
                atom_k w' = atom_k w + length new) \<and>
         res_i w \<le> res_i w' \<and>
         (r = None \<longrightarrow> res_i w' = res_i w + length (residues (map ((!) seq) ps)))"
  using assms
proof (induction ps arbitrary: w)
  case Nil
  then show ?case
    by (intro conjI exI [of _ "[]"]) (simp_all add: residues_def)
next
  case (Cons aa ps)
  obtain r1 w1 where s1: "residue_step o2t seq cm aa w = (r1, w1)"
    by (cases "residue_step o2t seq cm aa w")
  from residue_step_inv [OF s1] obtain new1 where
    a: "pdb_file w1 = pdb_file w @ map ATOM_LINE new1"
       "atom_k w1 = atom_k w + length new1"
       "res_i w1 = res_i w + (if seq ! aa \<noteq> CHR ''-'' \<and> r1 = None then 1 else 0)"
    by blast
  show ?case
  proof (cases r1)
    case (Some e)
    then have "w' = w1" "r = Some e"
      using Cons.prems s1 by simp_all
    then show ?thesis
      using a by (intro conjI exI [of _ new1]) simp_all
  next
    case None
    then have "seq_loop o2t seq cm ps w1 = (r, w')"
      using Cons.prems s1 by simp
    from Cons.IH [OF this] obtain new2 where
      b: "pdb_file w' = pdb_file w1 @ map ATOM_LINE new2"
         "atom_k w' = atom_k w1 + length new2"
         "res_i w1 \<le> res_i w'"
         "r = None \<longrightarrow> res_i w' = res_i w1 + length (residues (map ((!) seq) ps))"
      by blast
    show ?thesis
      using a b None by (intro conjI exI [of _ "new1 @ new2"]) (simp_all add: residues_def)
  qed
qed

lemma map_nth_upt_take: "n \<le> length xs \<Longrightarrow> map ((!) xs) [0..<n] = take n xs"
  by (rule nth_equalityI) simp_all

lemma residue_step_no_row:
  assumes "seq ! aa \<noteq> CHR ''-''" and "length cm \<le> aa"
  shows "residue_step o2t seq cm aa w = (Some IndexError, w)"
  using assms
  by (simp add: residue_step_def backbone_range atom_step_def read_coords_no_row)

lemma seq_loop_single: "seq_loop o2t seq cm [aa] w = residue_step o2t seq cm aa w"
  by (cases "residue_step o2t seq cm aa w" rule: prod.exhaust [case_product option.exhaust])
     (auto split: option.splits)

lemma seq_loop_prefix:
  assumes whole: "seq_loop o2t seq cm (ps @ qs) w0 = (r2, w2)"
    and part: "seq_loop o2t seq cm ps w0 = (r1, w1)"
  shows "(r1 \<noteq> None \<longrightarrow> r2 = r1 \<and> w2 = w1)
       \<and> (r1 = None \<longrightarrow> seq_loop o2t seq cm qs w1 = (r2, w2))
       \<and> (\<exists>new. pdb_file w2 = pdb_file w1 @ map ATOM_LINE new \<and>
                 atom_k w2 = atom_k w1 + length new)
       \<and> res_i w1 \<le> res_i w2"
proof (cases r1)
  case None
  then have rest: "seq_loop o2t seq cm qs w1 = (r2, w2)"
    using whole part by (simp add: seq_loop_append)
  from seq_loop_inv [OF rest] show ?thesis
    using None rest by blast
next
  case (Some e)
  then have "r2 = r1" "w2 = w1"
    using whole part by (simp_all add: seq_loop_append)
  then show ?thesis
    using Some by (intro conjI exI [of _ "[]"]) simp_all
qed

text \<open>
  Claim C4. Take any call of the writer, ending in state \<open>wend\<close> with or without an
  exception, and any position \<open>aa\<close> of the padded sequence. The call runs the loop over
  the positions \<open>0, 1, 2, \<dots>\<close> in order from the counters \<open>i = 1\<close>, \<open>k = 1\<close> and the empty
  stream: \<open>w\<close> is its state before position \<open>aa\<close> and \<open>w'\<close> its state after it. When
  nothing was raised before \<open>aa\<close>, \<open>w'\<close> is the step at \<open>aa\<close> applied to \<open>w\<close>, and \<open>w\<close> holds
  one more than the number of residues before \<open>aa\<close>; a gap at \<open>aa\<close> leaves the state as it
  is, and a non-gap position that raises nothing adds exactly one to the residue
  counter. The atom counter is always one more than the number of records written and
  grows by the number of records the step writes. What is written stays written (the
  stream of each state is the beginning of the next one and of the final one), both
  counters start at 1 and never decrease up to the final state, an exception ends the
  call in the state where it was raised, and a call that ends normally has counted every
  non-gap symbol once.
\<close>

theorem writer_counters:
  assumes run: "matrix_to_pdb o2t s cm = (r, wend)"
    and pos: "aa < length (pad_seq s)"
  shows "\<exists>ra w rb w'.
        seq_loop o2t (pad_seq s) cm [0..<aa] \<lparr>res_i = 1, atom_k = 1, pdb_file = []\<rparr> = (ra, w)
      \<and> seq_loop o2t (pad_seq s) cm [0..<Suc aa] \<lparr>res_i = 1, atom_k = 1, pdb_file = []\<rparr>
          = (rb, w')
      \<and> (ra = None \<longrightarrow> residue_step o2t (pad_seq s) cm aa w = (rb, w')
                      \<and> res_i w = 1 + length (residues (take aa (pad_seq s))))
      \<and> (ra \<noteq> None \<longrightarrow> rb = ra \<and> w' = w)
      \<and> (rb \<noteq> None \<longrightarrow> r = rb \<and> wend = w')
      \<and> (ra = None \<and> pad_seq s ! aa = CHR ''-'' \<longrightarrow> rb = None \<and> w' = w)
      \<and> (ra = None \<and> pad_seq s ! aa \<noteq> CHR ''-'' \<and> rb = None \<longrightarrow> res_i w' = res_i w + 1)
      \<and> atom_k w = 1 + length (atom_lines (pdb_file w))
      \<and> atom_k w' = atom_k w +
           (length (atom_lines (pdb_file w')) - length (atom_lines (pdb_file w)))
      \<and> take (length (pdb_file w)) (pdb_file w') = pdb_file w
      \<and> take (length (pdb_file w')) (pdb_file wend) = pdb_file w'
      \<and> 1 \<le> res_i w \<and> res_i w \<le> res_i w' \<and> res_i w' \<le> res_i wend
      \<and> 1 \<le> atom_k w \<and> atom_k w \<le> atom_k w' \<and> atom_k w' \<le> atom_k wend
      \<and> atom_k wend = 1 + length (atom_lines (pdb_file wend))
      \<and> (r = None \<longrightarrow> res_i wend = 1 + length (residues s))"
proof -
  let ?seq = "pad_seq s"
  let ?n = "length ?seq"
  let ?init = "\<lparr>res_i = 1, atom_k = 1, pdb_file = []\<rparr> :: 'a writer"
  obtain ra w where A: "seq_loop o2t ?seq cm [0..<aa] ?init = (ra, w)"
    by (cases "seq_loop o2t ?seq cm [0..<aa] ?init")
  obtain rb w' where B: "seq_loop o2t ?seq cm [0..<Suc aa] ?init = (rb, w')"
    by (cases "seq_loop o2t ?seq cm [0..<Suc aa] ?init")
  obtain rc wl where C: "seq_loop o2t ?seq cm [0..<?n] ?init = (rc, wl)"
    by (cases "seq_loop o2t ?seq cm [0..<?n] ?init")
  have B': "seq_loop o2t ?seq cm ([0..<aa] @ [aa]) ?init = (rb, w')"
    using B by simp
  have "[0..<?n] = [0..<aa] @ [aa..<?n]"
    using pos upt_add_eq_append [of 0 aa "?n - aa"] by simp
  also have "[aa..<?n] = aa # [Suc aa..<?n]"
    using pos by (rule upt_conv_Cons)
  also have "[0..<aa] @ aa # [Suc aa..<?n] = [0..<Suc aa] @ [Suc aa..<?n]"
    by simp
  finally have C': "seq_loop o2t ?seq cm ([0..<Suc aa] @ [Suc aa..<?n]) ?init = (rc, wl)"
    using C by simp
  note p1 = seq_loop_prefix [OF B' A]
  note p2 = seq_loop_prefix [OF C' B]
  from p1 obtain new1 where
    n1: "pdb_file w' = pdb_file w @ map ATOM_LINE new1" "atom_k w' = atom_k w + length new1"
    by blast
  from p2 obtain new2 where
    n2: "pdb_file wl = pdb_file w' @ map ATOM_LINE new2" "atom_k wl = atom_k w' + length new2"
    by blast
  from seq_loop_inv [OF A] obtain old where
    o: "pdb_file w = map ATOM_LINE old" "atom_k w = 1 + length old" "1 \<le> res_i w"
       "ra = None \<longrightarrow> res_i w = 1 + length (residues (map ((!) ?seq) [0..<aa]))"
    by auto
  have fin: "r = rc \<and> res_i wend = res_i wl \<and> atom_k wend = atom_k wl
           \<and> pdb_file wend = pdb_file wl @ (if rc = None then [END_LINE] else [])
           \<and> (rc \<noteq> None \<longrightarrow> wend = wl)"
    using run C by (cases rc) (auto simp: matrix_to_pdb_def Let_def)
  have c1: "ra = None \<longrightarrow> residue_step o2t ?seq cm aa w = (rb, w')
                      \<and> res_i w = 1 + length (residues (take aa ?seq))"
  proof (intro impI conjI)
    assume "ra = None"
    then show "residue_step o2t ?seq cm aa w = (rb, w')"
      using p1 unfolding seq_loop_single by blast
    show "res_i w = 1 + length (residues (take aa ?seq))"
      using o(4) pos \<open>ra = None\<close> by (simp add: map_nth_upt_take)
  qed
  have c2: "ra \<noteq> None \<longrightarrow> rb = ra \<and> w' = w"
    using p1 by blast
  have c3: "rb \<noteq> None \<longrightarrow> r = rb \<and> wend = w'"
    using p2 fin by auto
  have c4: "ra = None \<and> ?seq ! aa = CHR ''-'' \<longrightarrow> rb = None \<and> w' = w"
    using c1 residue_step_gap [of ?seq aa o2t cm w] by auto
  have c5: "ra = None \<and> ?seq ! aa \<noteq> CHR ''-'' \<and> rb = None \<longrightarrow> res_i w' = res_i w + 1"
  proof (intro impI)
    assume h: "ra = None \<and> ?seq ! aa \<noteq> CHR ''-'' \<and> rb = None"
    then have "residue_step o2t ?seq cm aa w = (rb, w')"
      using c1 by blast
    from residue_step_inv [OF this] show "res_i w' = res_i w + 1"
      using h by simp
  qed
  have c6: "atom_k w = 1 + length (atom_lines (pdb_file w))"
    using o(1,2) by (simp add: atom_lines_map)
  have c7: "atom_k w' = atom_k w +
           (length (atom_lines (pdb_file w')) - length (atom_lines (pdb_file w)))"
    using n1 by (simp add: atom_lines_append atom_lines_map)
  have c8: "take (length (pdb_file w)) (pdb_file w') = pdb_file w"
    using n1(1) by simp
  have c9: "take (length (pdb_file w')) (pdb_file wend) = pdb_file w'"
    using n2(1) fin by simp
  have c10: "1 \<le> res_i w" "res_i w \<le> res_i w'" "res_i w' \<le> res_i wend"
    using o(3) p1 p2 fin by simp_all
  have c11: "1 \<le> atom_k w" "atom_k w \<le> atom_k w'" "atom_k w' \<le> atom_k wend"
    using o(2) n1(2) n2(2) fin by simp_all
  have c12: "atom_k wend = 1 + length (atom_lines (pdb_file wend))"
    using o(1,2) n1 n2 fin by (simp add: atom_lines_append atom_lines_map)
  have c13: "r = None \<longrightarrow> res_i wend = 1 + length (residues s)"
    using seq_loop_inv [OF C] fin by (simp add: map_nth residues_pad_seq)
  from A B c1 c2 c3 c4 c5 c6 c7 c8 c9 c10 c11 c12 c13 show ?thesis
    by (intro exI [of _ ra] exI [of _ w] exI [of _ rb] exI [of _ w'] conjI)
qed

theorem writer_counters_witness:
  "(70::nat) < length (pad_seq ''GA'')
   \<and> pad_seq ''GA'' ! 70 \<noteq> CHR ''-''
   \<and> (\<exists>w w'. seq_loop std_one_to_three (pad_seq ''GA'') (replicate 140 (replicate 15 (0::int)))
                  [0..<70] \<lparr>res_i = 1, atom_k = 1, pdb_file = []\<rparr> = (None, w)
        \<and> residue_step std_one_to_three (pad_seq ''GA'') (replicate 140 (replicate 15 (0::int)))
                  70 w = (None, w')
        \<and> res_i w = 2 \<and> atom_k w = 5 \<and> res_i w' = 3
        \<and> atom_k w' = atom_k w +
             (length (atom_lines (pdb_file w')) - length (atom_lines (pdb_file w)))
        \<and> take (length (pdb_file w'))
             (pdb_file (snd (matrix_to_pdb std_one_to_three ''GA''
                               (replicate 140 (replicate 15 (0::int)))))) = pdb_file w')
   \<and> fst (matrix_to_pdb std_one_to_three ''GA'' (replicate 140 (replicate 15 (0::int)))) = None
   \<and> res_i (snd (matrix_to_pdb std_one_to_three ''GA''
                    (replicate 140 (replicate 15 (0::int))))) = 3"
proof -
  let ?cm = "replicate 140 (replicate 15 (0::int))"
  let ?seq = "pad_seq ''GA''"
  let ?init = "\<lparr>res_i = 1, atom_k = 1, pdb_file = []\<rparr> :: int writer"
  let ?run = "matrix_to_pdb std_one_to_three ''GA'' ?cm"
  have padded: "?seq = replicate 69 (CHR ''-'') @ ''GA'' @ replicate 69 (CHR ''-'')"
    by (simp add: pad_seq_short)
  have len: "length ?seq = 140"
    by (simp add: length_pad_seq_short)
  have pos: "(70::nat) < length ?seq"
    by (simp add: len)
  have at70: "?seq ! 70 \<noteq> CHR ''-''"
    by (simp add: padded nth_append)
  have tk: "take 70 ?seq = replicate 69 (CHR ''-'') @ ''G''"
    by (simp add: padded)
  have run: "?run = (fst ?run, snd ?run)"
    by simp
  have rows: "\<forall>aa<length ?seq. ?seq ! aa \<noteq> CHR ''-'' \<longrightarrow>
                aa < length ?cm \<and> 15 \<le> length (?cm ! aa)"
    unfolding len by simp
  have codes: "\<forall>c\<in>set ''GA''. c \<noteq> CHR ''-'' \<and> c \<noteq> CHR ''X'' \<longrightarrow>
                (\<exists>t. std_one_to_three c = Inr t)"
    by (simp add: std_one_to_three_def std_three_items_def)
  have ok: "\<forall>aa\<in>set [0..<n]. ?seq ! aa \<noteq> CHR ''-'' \<longrightarrow>
             aa < length ?cm \<and> 15 \<le> length (?cm ! aa) \<and>
             (\<exists>code. one_letter_code std_one_to_three (?seq ! aa) = Inr code)"
    if n: "n \<le> 140" for n
  proof (intro ballI impI)
    fix aa assume aa: "aa \<in> set [0..<n]" and ng: "?seq ! aa \<noteq> CHR ''-''"
    have lt: "aa < length ?seq" using aa n len by simp
    have "?seq ! aa \<in> set ''GA''" using lt ng by (rule pad_seq_nongap)
    then have "?seq ! aa \<noteq> CHR ''X'' \<longrightarrow> (\<exists>t. std_one_to_three (?seq ! aa) = Inr t)"
      using codes ng by blast
    then have "\<exists>code. one_letter_code std_one_to_three (?seq ! aa) = Inr code"
      by (rule one_letter_code_ok)
    then show "aa < length ?cm \<and> 15 \<le> length (?cm ! aa) \<and>
             (\<exists>code. one_letter_code std_one_to_three (?seq ! aa) = Inr code)"
      using rows lt ng by blast
  qed
  have le70: "(70::nat) \<le> 140" and le71: "Suc 70 \<le> 140"
    by simp_all
  note ok70 = ok [OF le70]
  note ok71 = ok [OF le71]
  have before: "fst (seq_loop std_one_to_three ?seq ?cm [0..<70] ?init) = None"
    by (simp only: seq_loop_ok [OF ok70] fst_conv)
  have after: "fst (seq_loop std_one_to_three ?seq ?cm [0..<Suc 70] ?init) = None"
    by (simp only: seq_loop_ok [OF ok71] fst_conv)
  have normal: "fst ?run = None"
    by (simp add: matrix_to_pdb_ok [OF rows codes])
  have lines: "length (atom_lines (pdb_file (snd (seq_loop std_one_to_three ?seq ?cm [0..<70] ?init)))) = 4"
    using length_seq_lines [of std_one_to_three ?seq ?cm "[0..<70]" 1 1]
    by (simp add: seq_loop_ok [OF ok70] atom_lines_map map_nth_upt_take len tk residues_def)
  from writer_counters [OF run pos] obtain ra w rb w' where
    A: "seq_loop std_one_to_three ?seq ?cm [0..<70] ?init = (ra, w)" and
    B: "seq_loop std_one_to_three ?seq ?cm [0..<Suc 70] ?init = (rb, w')" and
    c1: "ra = None \<longrightarrow> residue_step std_one_to_three ?seq ?cm 70 w = (rb, w')
                      \<and> res_i w = 1 + length (residues (take 70 ?seq))" and
    c5: "ra = None \<and> ?seq ! 70 \<noteq> CHR ''-'' \<and> rb = None \<longrightarrow> res_i w' = res_i w + 1" and
    c6: "atom_k w = 1 + length (atom_lines (pdb_file w))" and
    c7: "atom_k w' = atom_k w +
           (length (atom_lines (pdb_file w')) - length (atom_lines (pdb_file w)))" and
    c9: "take (length (pdb_file w')) (pdb_file (snd ?run)) = pdb_file w'" and
    c13: "fst ?run = None \<longrightarrow> res_i (snd ?run) = 1 + length (residues ''GA'')"
    by (elim exE conjE) (rule that, assumption+)
  have ra: "ra = None" using before A by simp
  have rb: "rb = None" using after B by simp
  have e1: "seq_loop std_one_to_three ?seq ?cm [0..<70] ?init = (None, w)"
    using A ra by simp
  have e2: "residue_step std_one_to_three ?seq ?cm 70 w = (None, w')"
    using c1 ra rb by simp
  have e3: "res_i w = 2"
    using c1 ra by (simp add: tk residues_def)
  have e4: "atom_k w = 5"
    using c6 lines A by simp
  have e5: "res_i w' = 3"
    using c5 ra rb at70 e3 by simp
  have e6: "res_i (snd ?run) = 3"
    using c13 normal by (simp add: residues_def)
  have "\<exists>w w'. seq_loop std_one_to_three ?seq ?cm [0..<70] ?init = (None, w)
        \<and> residue_step std_one_to_three ?seq ?cm 70 w = (None, w')
        \<and> res_i w = 2 \<and> atom_k w = 5 \<and> res_i w' = 3
        \<and> atom_k w' = atom_k w +
             (length (atom_lines (pdb_file w')) - length (atom_lines (pdb_file w)))
        \<and> take (length (pdb_file w')) (pdb_file (snd ?run)) = pdb_file w'"
    using e1 e2 e3 e4 e5 c7 c9 by (intro exI [of _ w] exI [of _ w'] conjI)
  with pos at70 normal e6 show ?thesis
    by (intro conjI)
qed

text \<open>
  Claim C5, as the code has it. The writer has no shape check. With 140 residues and a
  matrix of one row it writes the five records of the first residue, and only then the
  read of row 1 raises \<^verbatim>\<open>IndexError\<close>: the stream holds a partial structure.
\<close>

theorem matrix_to_pdb_short_matrix_counterexample:
  "matrix_to_pdb std_one_to_three (replicate 140 (CHR ''A'')) [replicate 15 (0::int)] =
     (Some IndexError,
      \<lparr>res_i = 2, atom_k = 6,
       pdb_file =
         [ATOM_LINE \<lparr>serial = 1, atom_name = ''N'', res_name = ''ALA'', res_seq = 1,
                     coord_x = 0, coord_y = 0, coord_z = 0\<rparr>,
          ATOM_LINE \<lparr>serial = 2, atom_name = ''CA'', res_name = ''ALA'', res_seq = 1,
                     coord_x = 0, coord_y = 0, coord_z = 0\<rparr>,
          ATOM_LINE \<lparr>serial = 3, atom_name = ''C'', res_name = ''ALA'', res_seq = 1,
                     coord_x = 0, coord_y = 0, coord_z = 0\<rparr>,
          ATOM_LINE \<lparr>serial = 4, atom_name = ''O'', res_name = ''ALA'', res_seq = 1,
                     coord_x = 0, coord_y = 0, coord_z = 0\<rparr>,
          ATOM_LINE \<lparr>serial = 5, atom_name = ''CB'', res_name = ''ALA'', res_seq = 1,
                     coord_x = 0, coord_y = 0, coord_z = 0\<rparr>]\<rparr>)"
proof -
  let ?s = "replicate 140 (CHR ''A'')"
  let ?cm = "[replicate 15 (0::int)]"
  let ?init = "\<lparr>res_i = 1, atom_k = 1, pdb_file = []\<rparr> :: int writer"
  have pad: "pad_seq ?s = ?s"
    by (simp add: pad_seq_def Let_def str_mul_gap up_pad_def down_pad_def NB_MAX_LENGTH_def)
  have range: "[0..<length ?s] = 0 # 1 # [2..<140]"
    by (simp add: upt_conv_Cons)
  have code: "one_letter_code std_one_to_three (?s ! 0) = Inr ''ALA''"
    by (simp add: one_letter_code_def std_one_to_three_def std_three_items_def)
  have first: "residue_step std_one_to_three ?s ?cm 0 ?init =
     (None, \<lparr>res_i = 2, atom_k = 6,
             pdb_file = map ATOM_LINE (res_lines ''ALA'' (replicate 15 0) (CHR ''A'') 1 1)\<rparr>)"
    using residue_step_ok [OF _ _ _ code, of ?cm ?init] by (simp add: length_res_lines)
  have second: "residue_step std_one_to_three ?s ?cm 1 w = (Some IndexError, w)" for w
    by (rule residue_step_no_row) simp_all
  have lines: "res_lines ''ALA'' (replicate 15 (0::int)) (CHR ''A'') 1 1 =
     [\<lparr>serial = 1, atom_name = ''N'', res_name = ''ALA'', res_seq = 1,
         coord_x = 0, coord_y = 0, coord_z = 0\<rparr>,
      \<lparr>serial = 2, atom_name = ''CA'', res_name = ''ALA'', res_seq = 1,
         coord_x = 0, coord_y = 0, coord_z = 0\<rparr>,
      \<lparr>serial = 3, atom_name = ''C'', res_name = ''ALA'', res_seq = 1,
         coord_x = 0, coord_y = 0, coord_z = 0\<rparr>,
      \<lparr>serial = 4, atom_name = ''O'', res_name = ''ALA'', res_seq = 1,
         coord_x = 0, coord_y = 0, coord_z = 0\<rparr>,
      \<lparr>serial = 5, atom_name = ''CB'', res_name = ''ALA'', res_seq = 1,
         coord_x = 0, coord_y = 0, coord_z = 0\<rparr>]"
    by (simp add: res_lines_def backbone_def upt_rec enumerate_eq_zip)
  have loop: "seq_loop std_one_to_three ?s ?cm (0 # 1 # [2..<140]) ?init =
     (Some IndexError,
      \<lparr>res_i = 2, atom_k = 6,
       pdb_file = map ATOM_LINE (res_lines ''ALA'' (replicate 15 0) (CHR ''A'') 1 1)\<rparr>)"
    by (simp only: seq_loop.simps first second prod.case option.case)
  show ?thesis
    unfolding matrix_to_pdb_def Let_def pad range loop
    by (simp only: prod.case option.case lines list.map)
qed

lemma seq_loop_stops:
  assumes ok: "\<forall>aa\<in>set ps. seq ! aa \<noteq> CHR ''-'' \<longrightarrow>
             aa < length cm \<and> 15 \<le> length (cm ! aa) \<and>
             (\<exists>code. one_letter_code o2t (seq ! aa) = Inr code)"
    and ng: "seq ! p \<noteq> CHR ''-''" and short: "length cm \<le> p"
  shows "seq_loop o2t seq cm (ps @ p # qs) w =
     (Some IndexError,
      \<lparr>res_i = res_i w + length (filter (\<lambda>aa. seq ! aa \<noteq> CHR ''-'') ps),
       atom_k = atom_k w + length (seq_lines o2t seq cm ps (res_i w) (atom_k w)),
       pdb_file = pdb_file w @ map ATOM_LINE (seq_lines o2t seq cm ps (res_i w) (atom_k w))\<rparr>)"
  unfolding seq_loop_append seq_loop_ok [OF ok]
  by (simp add: residue_step_no_row [OF ng short])

text \<open>
  Claim C5, amended. Let \<open>p\<close> be a non-gap position of the padded sequence for which the
  matrix has no row, every non-gap position before it having a row of 15 coordinates
  (and \<^verbatim>\<open>one_to_three\<close> knowing the residues). Then the writer raises \<^verbatim>\<open>IndexError\<close> when
  it reaches \<open>p\<close>: no row out of range is read. At that moment the stream holds the atom
  records of all residues before \<open>p\<close>, and nothing else; \<^verbatim>\<open>END_LINE\<close> is not written.
\<close>

theorem matrix_to_pdb_missing_row:
  assumes p: "p < length (pad_seq s)" and ng: "pad_seq s ! p \<noteq> CHR ''-''"
    and short: "length cm \<le> p"
    and rows: "\<forall>aa<p. pad_seq s ! aa \<noteq> CHR ''-'' \<longrightarrow> aa < length cm \<and> 15 \<le> length (cm ! aa)"
    and codes: "\<forall>c\<in>set s. c \<noteq> CHR ''-'' \<and> c \<noteq> CHR ''X'' \<longrightarrow> (\<exists>t. o2t c = Inr t)"
  shows "\<exists>w. matrix_to_pdb o2t s cm = (Some IndexError, w)
       \<and> pdb_file w = map ATOM_LINE (atom_lines (pdb_file w))
       \<and> length (atom_lines (pdb_file w)) + count_list (take p (pad_seq s)) (CHR ''G'') =
           5 * length (residues (take p (pad_seq s)))
       \<and> res_i w = 1 + length (residues (take p (pad_seq s)))
       \<and> atom_k w = 1 + length (atom_lines (pdb_file w))"
proof -
  let ?seq = "pad_seq s"
  let ?ps = "[0..<p]"
  let ?L = "seq_lines o2t ?seq cm ?ps 1 1"
  let ?w = "\<lparr>res_i = 1 + length (filter (\<lambda>aa. ?seq ! aa \<noteq> CHR ''-'') ?ps),
             atom_k = 1 + length ?L, pdb_file = map ATOM_LINE ?L\<rparr>"
  have ok: "\<forall>aa\<in>set ?ps. ?seq ! aa \<noteq> CHR ''-'' \<longrightarrow>
             aa < length cm \<and> 15 \<le> length (cm ! aa) \<and>
             (\<exists>code. one_letter_code o2t (?seq ! aa) = Inr code)"
  proof (intro ballI impI)
    fix aa assume aa: "aa \<in> set ?ps" and nga: "?seq ! aa \<noteq> CHR ''-''"
    have lt: "aa < length ?seq" using aa p by simp
    have "?seq ! aa \<in> set s" using lt nga by (rule pad_seq_nongap)
    then have "?seq ! aa \<noteq> CHR ''X'' \<longrightarrow> (\<exists>t. o2t (?seq ! aa) = Inr t)"
      using codes nga by blast
    then have "\<exists>code. one_letter_code o2t (?seq ! aa) = Inr code"
      by (rule one_letter_code_ok)
    then show "aa < length cm \<and> 15 \<le> length (cm ! aa) \<and>
             (\<exists>code. one_letter_code o2t (?seq ! aa) = Inr code)"
      using rows aa nga by simp
  qed
  have "[0..<length ?seq] = ?ps @ [p..<length ?seq]"
    using p upt_add_eq_append [of 0 p "length ?seq - p"] by simp
  also have "[p..<length ?seq] = p # [Suc p..<length ?seq]"
    using p by (rule upt_conv_Cons)
  finally have range: "[0..<length ?seq] = ?ps @ p # [Suc p..<length ?seq]" .
  have run: "matrix_to_pdb o2t s cm = (Some IndexError, ?w)"
    unfolding matrix_to_pdb_def Let_def range seq_loop_stops [OF ok ng short] by simp
  have tk: "map ((!) ?seq) ?ps = take p ?seq"
    using p by (simp add: map_nth_upt_take)
  have lines: "atom_lines (pdb_file ?w) = ?L"
    by (simp add: atom_lines_map)
  have cnt: "length ?L + count_list (take p ?seq) (CHR ''G'') = 5 * length (residues (take p ?seq))"
    using length_seq_lines [of o2t ?seq cm ?ps 1 1] by (simp add: tk)
  have "length (filter (\<lambda>aa. ?seq ! aa \<noteq> CHR ''-'') ?ps) = length (residues (map ((!) ?seq) ?ps))"
    by (simp add: residues_def filter_map comp_def)
  then have ri: "res_i ?w = 1 + length (residues (take p ?seq))"
    by (simp add: tk)
  show ?thesis
  proof (intro exI [of _ ?w] conjI)
    show "matrix_to_pdb o2t s cm = (Some IndexError, ?w)" by (rule run)
    show "pdb_file ?w = map ATOM_LINE (atom_lines (pdb_file ?w))"
      unfolding lines by simp
    show "length (atom_lines (pdb_file ?w)) + count_list (take p ?seq) (CHR ''G'') =
           5 * length (residues (take p ?seq))"
      unfolding lines by (rule cnt)
    show "res_i ?w = 1 + length (residues (take p ?seq))" by (rule ri)
    show "atom_k ?w = 1 + length (atom_lines (pdb_file ?w))"
      unfolding lines by simp
  qed
qed

theorem matrix_to_pdb_missing_row_witness:
  "(1::nat) < length (pad_seq (replicate 140 (CHR ''A'')))
   \<and> pad_seq (replicate 140 (CHR ''A'')) ! 1 \<noteq> CHR ''-''
   \<and> length [replicate 15 (0::int)] \<le> 1
   \<and> (\<exists>w. matrix_to_pdb std_one_to_three (replicate 140 (CHR ''A'')) [replicate 15 (0::int)]
            = (Some IndexError, w)
        \<and> length (atom_lines (pdb_file w)) = 5 \<and> res_i w = 2 \<and> atom_k w = 6)"
proof -
  let ?s = "replicate 140 (CHR ''A'')"
  let ?cm = "[replicate 15 (0::int)]"
  have pad: "pad_seq ?s = ?s"
    by (simp add: pad_seq_def Let_def str_mul_gap up_pad_def down_pad_def NB_MAX_LENGTH_def)
  have h1: "(1::nat) < length (pad_seq ?s)"
    by (simp add: pad)
  have h2: "pad_seq ?s ! 1 \<noteq> CHR ''-''"
    by (simp add: pad)
  have h3: "length ?cm \<le> 1"
    by simp
  have h4: "\<forall>aa<1. pad_seq ?s ! aa \<noteq> CHR ''-'' \<longrightarrow> aa < length ?cm \<and> 15 \<le> length (?cm ! aa)"
    by simp
  have h5: "\<forall>c\<in>set ?s. c \<noteq> CHR ''-'' \<and> c \<noteq> CHR ''X'' \<longrightarrow> (\<exists>t. std_one_to_three c = Inr t)"
    by (simp add: std_one_to_three_def std_three_items_def)
  have tk: "take 1 (pad_seq ?s) = ''A''"
    by (simp add: pad)
  from matrix_to_pdb_missing_row [OF h1 h2 h3 h4 h5] obtain w where
    w: "matrix_to_pdb std_one_to_three ?s ?cm = (Some IndexError, w)
       \<and> pdb_file w = map ATOM_LINE (atom_lines (pdb_file w))
       \<and> length (atom_lines (pdb_file w)) + count_list (take 1 (pad_seq ?s)) (CHR ''G'') =
           5 * length (residues (take 1 (pad_seq ?s)))
       \<and> res_i w = 1 + length (residues (take 1 (pad_seq ?s)))
       \<and> atom_k w = 1 + length (atom_lines (pdb_file w))"
    by (rule exE)
  have w1: "matrix_to_pdb std_one_to_three ?s ?cm = (Some IndexError, w)"
    using w by (elim conjE)
  have w2: "length (atom_lines (pdb_file w)) = 5"
    using w unfolding tk by (simp add: residues_def)
  have w3: "res_i w = 2"
    using w unfolding tk by (simp add: residues_def)
  have w4: "atom_k w = 6"
    using w w2 by simp
  have "\<exists>w. matrix_to_pdb std_one_to_three ?s ?cm = (Some IndexError, w)
        \<and> length (atom_lines (pdb_file w)) = 5 \<and> res_i w = 2 \<and> atom_k w = 6"
    using w1 w2 w3 w4 by (intro exI [of _ w] conjI)
  with h1 h2 h3 show ?thesis
    by (intro conjI)
qed

end
